theory Spec2Isabelle
  imports Main
begin

section \<open>The getpinfo module: constants and data\<close>

text \<open>
  The module \<^verbatim>\<open>getpinfo.c\<close> emulates a system call over a debugfs file: a write
  (\<^verbatim>\<open>getpinfo_call\<close>) submits a call string and prepares a response, a read
  (\<^verbatim>\<open>getpinfo_return\<close>) hands the response to the task that made the call.

  The header \<^verbatim>\<open>getpinfo.h\<close> is not part of the sources at hand, so the three
  sizes it defines are parameters of every definition below.
\<close>

record config =
  MAX_CALL :: nat
  MAX_LINE :: nat
  MAX_RESP :: nat

text \<open>The error numbers of the kernel's \<^verbatim>\<open>errno\<close> headers.\<close>

definition EAGAIN :: int where "EAGAIN = 11"
definition EINVAL :: int where "EINVAL = 22"
definition ENOSPC :: int where "ENOSPC = 28"

abbreviation NUL :: char where "NUL \<equiv> CHR 0x00"
abbreviation TAB :: char where "TAB \<equiv> CHR 0x09"
abbreviation NL :: char where "NL \<equiv> CHR 0x0A"

text \<open>
  A task is named by the address of its \<^verbatim>\<open>task_struct\<close>; a pointer that may be
  \<^verbatim>\<open>NULL\<close> is an option. Only the fields the module reads are kept.
\<close>

type_synonym task = nat
type_synonym pid_ptr = nat

record task_struct =
  state :: int
  flags :: nat
  normal_prio :: int
  real_parent :: "task option"

text \<open>
  What the kernel supplies to one call of the write handler: whether
  \<^verbatim>\<open>kmalloc\<close> succeeds and what the fresh block holds (it is not zeroed), what the
  stack slot of \<^verbatim>\<open>callbuf\<close> holds on entry (the array is not initialised), the task
  table, and the two pid accessors.
\<close>

record kernel =
  alloc_ok :: bool
  heap_fill :: "nat \<Rightarrow> char"
  stack_fill :: "nat \<Rightarrow> char"
  tasks :: "task \<Rightarrow> task_struct"
  get_task_pid :: "task \<Rightarrow> pid_ptr option"
  pid_vnr :: "pid_ptr \<Rightarrow> int"

text \<open>
  The module's global state: \<^verbatim>\<open>call_task\<close>, \<^verbatim>\<open>respbuf\<close> (the block it points to,
  as its bytes), and the file position the handlers reset through \<^verbatim>\<open>ppos\<close>.
\<close>

record mstate =
  call_task :: "task option"
  respbuf :: "char list option"
  f_pos :: nat

definition init_state :: mstate where
  "init_state = \<lparr>call_task = None, respbuf = None, f_pos = 0\<rparr>"

text \<open>
  A store outside the block it indexes, or a read through a null pointer, is undefined in
  C; the model stops there with a fault.
\<close>

datatype fault = NullPointer | OutOfBounds

section \<open>C strings\<close>

text \<open>The string a buffer holds: its bytes up to the first terminator.\<close>

definition cstr :: "char list \<Rightarrow> string" where
  "cstr buf = takeWhile (\<lambda>c. c \<noteq> NUL) buf"

definition strlen :: "char list \<Rightarrow> fault + nat" where
  "strlen buf = (if NUL \<in> set buf then Inr (length (cstr buf)) else Inl OutOfBounds)"

text \<open>\<^verbatim>\<open>strcpy(dst, src)\<close> for a source string without terminator inside: the bytes
  of \<open>src\<close> and one terminator, from index 0.\<close>

definition strcpy :: "char list \<Rightarrow> string \<Rightarrow> fault + char list" where
  "strcpy dst src =
     (if length src < length dst
      then Inr (src @ [NUL] @ drop (length src + 1) dst)
      else Inl OutOfBounds)"

definition strcat :: "char list \<Rightarrow> string \<Rightarrow> fault + char list" where
  "strcat dst src =
     (case strlen dst of
        Inl f \<Rightarrow> Inl f
      | Inr n \<Rightarrow>
          if n + length src < length dst
          then Inr (take n dst @ src @ [NUL] @ drop (n + length src + 1) dst)
          else Inl OutOfBounds)"

text \<open>
  The kernel's \<^verbatim>\<open>strcmp\<close> (lib/string.c): walk both arrays, return -1 or 1 at the
  first difference, 0 when both reach a terminator together. \<open>None\<close>: the walk left
  one of the arrays.
\<close>

fun strcmp :: "char list \<Rightarrow> char list \<Rightarrow> int option" where
  "strcmp (c1 # cs) (c2 # ct) =
     (if c1 \<noteq> c2 then Some (if of_char c1 < (of_char c2 :: nat) then - 1 else 1)
      else if c1 = NUL then Some 0
      else strcmp cs ct)"
| "strcmp _ _ = None"

section \<open>Formatting\<close>

definition digit_char :: "nat \<Rightarrow> char" where
  "digit_char d = ''0123456789abcdef'' ! d"

fun fmt_dec :: "nat \<Rightarrow> string" where
  "fmt_dec n = (if n < 10 then [digit_char n] else fmt_dec (n div 10) @ [digit_char (n mod 10)])"

fun fmt_hex :: "nat \<Rightarrow> string" where
  "fmt_hex n = (if n < 16 then [digit_char n] else fmt_hex (n div 16) @ [digit_char (n mod 16)])"

declare fmt_dec.simps [simp del]
declare fmt_hex.simps [simp del]

text \<open>\<^verbatim>\<open>%d\<close> and \<^verbatim>\<open>%ld\<close>: signed decimal.\<close>

definition fmt_d :: "int \<Rightarrow> string" where
  "fmt_d i = (if i < 0 then CHR ''-'' # fmt_dec (nat (- i)) else fmt_dec (nat i))"

text \<open>\<^verbatim>\<open>%08x\<close> of an \<^verbatim>\<open>unsigned int\<close>: the value modulo \<open>2 ^ 32\<close> in lowercase
  hexadecimal, padded with zeros on the left to a width of at least eight.\<close>

definition fmt_08x :: "nat \<Rightarrow> string" where
  "fmt_08x n =
     (let h = fmt_hex (n mod 2 ^ 32) in replicate (8 - length h) CHR ''0'' @ h)"

section \<open>User copies and allocation\<close>

text \<open>
  \<^verbatim>\<open>copy_from_user(to, from, n)\<close>: \<open>ubuf\<close> is what can be read at the user's address.
  The first \<open>n\<close> bytes of \<open>to\<close> are overwritten; bytes that could not be read are
  zero-filled, as the kernel documents.
\<close>

definition copy_from_user :: "char list \<Rightarrow> char list \<Rightarrow> nat \<Rightarrow> char list" where
  "copy_from_user to ubuf n = take n ubuf @ replicate (n - length ubuf) NUL @ drop n to"

text \<open>
  \<^verbatim>\<open>copy_to_user(to, from, n)\<close>: \<open>uw\<close> is the number of bytes that can be written at
  the user's address. The result is the bytes stored there and the number of bytes that
  could \<^emph>\<open>not\<close> be copied, which is what the kernel primitive returns.
\<close>

definition copy_to_user :: "nat \<Rightarrow> char list \<Rightarrow> nat \<Rightarrow> char list \<times> nat" where
  "copy_to_user uw from n = (take (min n uw) from, n - min n uw)"

definition kmalloc :: "kernel \<Rightarrow> nat \<Rightarrow> char list option" where
  "kmalloc k n = (if alloc_ok k then Some (map (heap_fill k) [0..<n]) else None)"

section \<open>The write handler\<close>

definition verb :: string where
  "verb = ''getpinfo''"

definition failed_msg :: string where
  "failed_msg = ''Failed: invalid operation'' @ [NL]"

text \<open>The local \<^verbatim>\<open>callbuf\<close> after the copy from user space and the store of the
  terminator at its last index.\<close>

definition callbuf_of :: "config \<Rightarrow> kernel \<Rightarrow> char list \<Rightarrow> nat \<Rightarrow> char list" where
  "callbuf_of cfg k ubuf count =
     (copy_from_user (map (stack_fill k) [0..<MAX_CALL cfg]) ubuf count)
       [MAX_CALL cfg - 1 := NUL]"

definition cur_pid_of :: "kernel \<Rightarrow> task \<Rightarrow> int" where
  "cur_pid_of k t = (case get_task_pid k t of Some p \<Rightarrow> pid_vnr k p | None \<Rightarrow> 0)"

definition parent_pid_of :: "kernel \<Rightarrow> task \<Rightarrow> int" where
  "parent_pid_of k t =
     (case real_parent (tasks k t) of
        None \<Rightarrow> 0
      | Some p \<Rightarrow> (case get_task_pid k p of Some q \<Rightarrow> pid_vnr k q | None \<Rightarrow> 0))"

text \<open>The text the second \<^verbatim>\<open>sprintf\<close> writes into \<^verbatim>\<open>resp_line\<close>.\<close>

definition resp_line_of :: "kernel \<Rightarrow> task \<Rightarrow> string \<Rightarrow> string" where
  "resp_line_of k t cmd =
     TAB # ''Current PID '' @ fmt_d (cur_pid_of k t) @ [NL] @
     TAB # ''parent '' @ fmt_d (parent_pid_of k t) @ [NL] @
     TAB # ''state '' @ fmt_d (state (tasks k t)) @ [NL] @
     TAB # ''flags '' @ fmt_08x (flags (tasks k t)) @ [NL] @
     TAB # ''priority '' @ fmt_d (normal_prio (tasks k t)) @ [NL] @
     TAB # ''command '' @ cmd @ [NL]"

text \<open>
  \<^verbatim>\<open>getpinfo_call\<close>, statement by statement. \<open>cur\<close> is \<^verbatim>\<open>current\<close>. The result is
  the new state and the value returned to \<^verbatim>\<open>write()\<close>. \<^verbatim>\<open>resp_line\<close> is written
  from index 0 and read back only up to its terminator, so only its capacity is kept.
  The preemption calls and \<^verbatim>\<open>printk\<close> change nothing that is modelled.
\<close>

definition getpinfo_call ::
  "config \<Rightarrow> kernel \<Rightarrow> mstate \<Rightarrow> task \<Rightarrow> char list \<Rightarrow> nat \<Rightarrow> fault + (mstate \<times> int)" where
  "getpinfo_call cfg k s cur ubuf count =
     (if count \<ge> MAX_CALL cfg then Inr (s, - EINVAL)
      else if call_task s \<noteq> None then Inr (s, - EAGAIN)
      else (case kmalloc k (MAX_RESP cfg) of
        None \<Rightarrow> Inr (s\<lparr>respbuf := None\<rparr>, - ENOSPC)
      | Some blk \<Rightarrow>
         (case strcpy blk [] of
            Inl f \<Rightarrow> Inl f
          | Inr b0 \<Rightarrow>
             let s1 = s\<lparr>respbuf := Some b0, call_task := Some cur\<rparr>;
                 callbuf = callbuf_of cfg k ubuf count
             in (case strcmp callbuf (verb @ [NUL]) of
                  None \<Rightarrow> Inl OutOfBounds
                | Some r \<Rightarrow>
                   if r \<noteq> 0 then
                     (case strcpy b0 failed_msg of
                        Inl f \<Rightarrow> Inl f
                      | Inr b1 \<Rightarrow> Inr (s1\<lparr>respbuf := Some b1\<rparr>, int count))
                   else
                     (case strcpy b0 (''Success:'' @ [NL]) of
                        Inl f \<Rightarrow> Inl f
                      | Inr b1 \<Rightarrow>
                         let resp_line = resp_line_of k cur (cstr callbuf)
                         in if \<not> length resp_line < MAX_LINE cfg then Inl OutOfBounds
                            else (case strcat b1 resp_line of
                                   Inl f \<Rightarrow> Inl f
                                 | Inr b2 \<Rightarrow>
                                     Inr (s1\<lparr>respbuf := Some b2, f_pos := 0\<rparr>, int count)))))))"

section \<open>The read handler\<close>

text \<open>
  \<^verbatim>\<open>getpinfo_return\<close>. \<open>count\<close> is a \<^verbatim>\<open>size_t\<close>, so \<^verbatim>\<open>count - 1\<close> wraps around
  at \<open>2 ^ 64\<close> (\<open>size_t_dec\<close>). The result is the new state, the value returned to \<^verbatim>\<open>read()\<close> and the
  bytes stored in the user's buffer.
\<close>

definition size_t_dec :: "nat \<Rightarrow> nat" where
  "size_t_dec n = (n + 2 ^ 64 - 1) mod 2 ^ 64"

definition getpinfo_return ::
  "config \<Rightarrow> mstate \<Rightarrow> task \<Rightarrow> nat \<Rightarrow> nat \<Rightarrow> fault + (mstate \<times> int \<times> char list)" where
  "getpinfo_return cfg s cur count uw =
     (if Some cur \<noteq> call_task s then Inr (s, 0, [])
      else (case respbuf s of
        None \<Rightarrow> Inl NullPointer
      | Some b \<Rightarrow>
         (case strlen b of
            Inl f \<Rightarrow> Inl f
          | Inr len \<Rightarrow>
             let rc = len + 1 in
             if count < rc then
               let i = size_t_dec count in
               if i < length b then
                 let (out, rc') = copy_to_user uw (b[i := NUL]) count
                 in Inr (s\<lparr>respbuf := None, call_task := None, f_pos := 0\<rparr>, int rc', out)
               else Inl OutOfBounds
             else
               let (out, rc') = copy_to_user uw b rc
               in Inr (s\<lparr>respbuf := None, call_task := None, f_pos := 0\<rparr>, int rc', out))))"

section \<open>Histories and observations\<close>

text \<open>One operation on the file: a write by a task (with what the kernel supplies to
  that call) or a read by a task.\<close>

datatype op = Submit kernel task "char list" nat | Fetch task nat nat

fun step :: "config \<Rightarrow> mstate \<Rightarrow> op \<Rightarrow> fault + mstate" where
  "step cfg s (Submit k cur ubuf count) =
     (case getpinfo_call cfg k s cur ubuf count of Inl f \<Rightarrow> Inl f | Inr (s', r) \<Rightarrow> Inr s')"
| "step cfg s (Fetch cur count uw) =
     (case getpinfo_return cfg s cur count uw of Inl f \<Rightarrow> Inl f | Inr (s', r, out) \<Rightarrow> Inr s')"

fun run :: "config \<Rightarrow> mstate \<Rightarrow> op list \<Rightarrow> fault + mstate" where
  "run cfg s [] = Inr s"
| "run cfg s (x # xs) = (case step cfg s x of Inl f \<Rightarrow> Inl f | Inr s' \<Rightarrow> run cfg s' xs)"

text \<open>The response text a write leaves in the slot: what a later read by the caller
  is given, up to the terminator. \<open>None\<close>: the write faulted or left no buffer.\<close>

definition response_after :: "fault + (mstate \<times> int) \<Rightarrow> string option" where
  "response_after res =
     (case res of Inl f \<Rightarrow> None | Inr (s', r) \<Rightarrow> map_option cstr (respbuf s'))"

text \<open>The payload of a write: the \<open>count\<close> bytes that \<^verbatim>\<open>copy_from_user\<close> stores at
  the start of \<^verbatim>\<open>callbuf\<close>.\<close>

definition payload :: "char list \<Rightarrow> nat \<Rightarrow> char list" where
  "payload ubuf count = take count ubuf @ replicate (count - length ubuf) NUL"

section \<open>The response format as the specification words it\<close>

text \<open>
  These definitions follow the specification's description of the success response and
  use none of the formatting functions above; the handler's output is compared with them.

  \<open>spec_hex8\<close>: eight lowercase hexadecimal digits, zero-padded: character \<open>i\<close> is the
  digit of the \<open>i\<close>-th nibble of the 32-bit word, most significant first.
\<close>

definition spec_hex8 :: "nat \<Rightarrow> string" where
  "spec_hex8 w =
     map (\<lambda>i. ''0123456789abcdef'' ! (w mod 2 ^ 32 div 16 ^ (7 - i) mod 16)) [0..<8]"

text \<open>Reading a decimal numeral back: digits most significant first, an optional leading
  minus sign.\<close>

definition spec_read_nat :: "string \<Rightarrow> nat" where
  "spec_read_nat str = foldl (\<lambda>a c. 10 * a + (of_char c - 48)) 0 str"

definition spec_read_int :: "string \<Rightarrow> int" where
  "spec_read_int str =
     (case str of
        [] \<Rightarrow> 0
      | c # cs \<Rightarrow> if c = CHR ''-'' then - int (spec_read_nat cs) else int (spec_read_nat str))"

text \<open>The line \<^verbatim>\<open>Success:\<close> followed by six tab-prefixed \<open>key value\<close> lines in the
  order PID, parent, state, flags, priority, command.\<close>

definition spec_success_text ::
  "string \<Rightarrow> string \<Rightarrow> string \<Rightarrow> string \<Rightarrow> string \<Rightarrow> string \<Rightarrow> string" where
  "spec_success_text pid ppid st fl pr cmd =
     ''Success:'' @ [NL] @
     concat (map (\<lambda>(key, val). TAB # key @ '' '' @ val @ [NL])
       [(''Current PID'', pid), (''parent'', ppid), (''state'', st),
        (''flags'', fl), (''priority'', pr), (''command'', cmd)])"

text \<open>
  A complete success response for task \<open>t\<close> as kernel \<open>k\<close> describes it: the six lines
  with decimal numerals that read back as the task's pid, its parent's pid (0 without an
  observable parent), its state and its normal priority, the flags word as
  \<open>spec_hex8\<close>, and the verb as the command.
\<close>

abbreviation success_response_for :: "kernel \<Rightarrow> task \<Rightarrow> string \<Rightarrow> bool" where
  "success_response_for k t txt \<equiv>
     \<exists>pid ppid st pr.
       txt = spec_success_text pid ppid st (spec_hex8 (flags (tasks k t))) pr ''getpinfo'' \<and>
       set (pid @ ppid @ st @ pr) \<subseteq> set ''-0123456789'' \<and>
       spec_read_int pid = (case get_task_pid k t of None \<Rightarrow> 0 | Some p \<Rightarrow> pid_vnr k p) \<and>
       spec_read_int ppid =
         (case real_parent (tasks k t) of
            None \<Rightarrow> 0
          | Some u \<Rightarrow> (case get_task_pid k u of None \<Rightarrow> 0 | Some p \<Rightarrow> pid_vnr k p)) \<and>
       spec_read_int st = state (tasks k t) \<and>
       spec_read_int pr = normal_prio (tasks k t)"

text \<open>
  The slot after a history \<open>S\<close> of operations: caller and buffer are null together;
  an occupied slot holds a buffer of \<^verbatim>\<open>MAX_RESP\<close> bytes with a terminator, and the text
  before it is a complete response to a write of the recorded caller in \<open>S\<close>: the failure
  message, or the success response for that caller as the kernel described it to that
  write.
\<close>

abbreviation slot_ok :: "config \<Rightarrow> op set \<Rightarrow> mstate \<Rightarrow> bool" where
  "slot_ok cfg S s \<equiv>
     (call_task s = None \<longleftrightarrow> respbuf s = None) \<and>
     (\<forall>t b. call_task s = Some t \<and> respbuf s = Some b \<longrightarrow>
        length b = MAX_RESP cfg \<and> NUL \<in> set b \<and>
        (\<exists>k ubuf count. Submit k t ubuf count \<in> S \<and>
           (cstr b = ''Failed: invalid operation'' @ [NL] \<or> success_response_for k t (cstr b))))"

section \<open>A concrete configuration\<close>

text \<open>Sizes, a kernel and tasks for the worked scenarios: task 7 with parent 3, a
  stack slot and a heap block that hold stale non-zero bytes.\<close>

definition demo_cfg :: config where
  "demo_cfg = \<lparr>MAX_CALL = 16, MAX_LINE = 100, MAX_RESP = 120\<rparr>"

definition demo_kernel :: kernel where
  "demo_kernel =
     \<lparr>alloc_ok = True,
      heap_fill = (\<lambda>_. CHR ''x''),
      stack_fill = (\<lambda>_. CHR ''y''),
      tasks = (\<lambda>t. \<lparr>state = 0, flags = 4194304, normal_prio = 120,
                     real_parent = (if t = 7 then Some 3 else None)\<rparr>),
      get_task_pid = (\<lambda>t. Some (t + 1000)),
      pid_vnr = (\<lambda>p. int p - 1000)\<rparr>"

definition no_mem_kernel :: kernel where
  "no_mem_kernel = demo_kernel\<lparr>alloc_ok := False\<rparr>"

text \<open>The slot held by task 7 with the failure message as its response.\<close>

definition busy_state :: mstate where
  "busy_state =
     \<lparr>call_task = Some 7,
      respbuf = Some (failed_msg @ NUL # replicate 93 CHR ''x''),
      f_pos = 0\<rparr>"

section \<open>Facts about C strings and formatting\<close>

lemma cstr_no_NUL: "NUL \<notin> set (cstr buf)"
  unfolding cstr_def by (induction buf) auto

lemma cstr_append_NUL: "NUL \<notin> set xs \<Longrightarrow> cstr (xs @ NUL # ys) = xs"
  unfolding cstr_def by (induction xs) auto

lemma cstr_take: "take (length (cstr buf)) buf = cstr buf"
  unfolding cstr_def by (induction buf) auto

lemma cstr_length_less: "NUL \<in> set buf \<Longrightarrow> length (cstr buf) < length buf"
  unfolding cstr_def by (induction buf) auto

lemma cstr_nth_NUL: "NUL \<in> set buf \<Longrightarrow> buf ! length (cstr buf) = NUL"
  unfolding cstr_def by (induction buf) auto

lemma strcmp_total:
  "NUL \<in> set cs \<Longrightarrow> NUL \<in> set ct \<Longrightarrow>
   \<exists>r. strcmp cs ct = Some r \<and> (r = 0 \<longleftrightarrow> cstr cs = cstr ct)"
proof (induction cs ct rule: strcmp.induct)
  case (1 c1 cs c2 ct)
  then show ?case by (auto simp: cstr_def)
qed simp_all

lemma strcpy_Inr:
  assumes "strcpy dst src = Inr b"
  shows "length b = length dst" and "NUL \<in> set b" and "NUL \<notin> set src \<Longrightarrow> cstr b = src"
  using assms by (auto simp: strcpy_def cstr_append_NUL split: if_splits)

lemma strcpy_fits: "length src < length dst \<Longrightarrow> \<exists>b. strcpy dst src = Inr b"
  by (simp add: strcpy_def)

lemma strcat_Inr:
  assumes "strcat dst src = Inr b"
  shows "length b = length dst" and "NUL \<in> set b"
    and "NUL \<notin> set src \<Longrightarrow> cstr b = cstr dst @ src"
proof -
  from assms obtain n where n: "strlen dst = Inr n" and fit: "n + length src < length dst"
    and b: "b = take n dst @ src @ [NUL] @ drop (n + length src + 1) dst"
    by (auto simp: strcat_def split: sum.splits if_splits)
  from n have nul: "NUL \<in> set dst" and nlen: "n = length (cstr dst)"
    by (auto simp: strlen_def split: if_splits)
  show "length b = length dst" using fit b by simp
  show "NUL \<in> set b" using b by simp
  assume "NUL \<notin> set src"
  then have "NUL \<notin> set (cstr dst @ src)" by (simp add: cstr_no_NUL)
  moreover have "b = (cstr dst @ src) @ NUL # drop (n + length src + 1) dst"
    using b nlen by (simp add: cstr_take)
  ultimately show "cstr b = cstr dst @ src"
    using cstr_append_NUL [of "cstr dst @ src"] by simp
qed

lemma strcat_fits:
  "NUL \<in> set dst \<Longrightarrow> length (cstr dst) + length src < length dst \<Longrightarrow> \<exists>b. strcat dst src = Inr b"
  by (simp add: strcat_def strlen_def)

lemma length_copy_from_user: "n \<le> length to \<Longrightarrow> length (copy_from_user to ubuf n) = length to"
  by (auto simp: copy_from_user_def)

lemma callbuf_of_props:
  assumes "count < MAX_CALL cfg"
  shows "length (callbuf_of cfg k ubuf count) = MAX_CALL cfg"
    and "NUL \<in> set (callbuf_of cfg k ubuf count)"
proof -
  show len: "length (callbuf_of cfg k ubuf count) = MAX_CALL cfg"
    using assms by (simp add: callbuf_of_def length_copy_from_user)
  have "callbuf_of cfg k ubuf count ! (MAX_CALL cfg - 1) = NUL"
    using assms by (simp add: callbuf_of_def length_copy_from_user)
  moreover have "MAX_CALL cfg - 1 < length (callbuf_of cfg k ubuf count)"
    using assms len by simp
  ultimately show "NUL \<in> set (callbuf_of cfg k ubuf count)"
    by (metis nth_mem)
qed

lemma kmalloc_Some: "kmalloc k n = Some blk \<Longrightarrow> length blk = n"
  by (auto simp: kmalloc_def split: if_splits)

lemma digit_char_hex: "d < 16 \<Longrightarrow> digit_char d \<in> set ''0123456789abcdef''"
  unfolding digit_char_def by (rule nth_mem) simp

lemma fmt_hex_digits: "set (fmt_hex n) \<subseteq> set ''0123456789abcdef''"
proof (induction n rule: fmt_hex.induct)
  case (1 n)
  show ?case
  proof (cases "n < 16")
    case True
    then show ?thesis using digit_char_hex [of n] by (subst fmt_hex.simps) simp
  next
    case False
    have "n mod 16 < 16" by simp
    then have "digit_char (n mod 16) \<in> set ''0123456789abcdef''" by (rule digit_char_hex)
    with False "1.IH" show ?thesis by (subst fmt_hex.simps) simp
  qed
qed

lemma fmt_hex_length: "0 < k \<Longrightarrow> n < 16 ^ k \<Longrightarrow> length (fmt_hex n) \<le> k"
proof (induction n arbitrary: k rule: fmt_hex.induct)
  case (1 n)
  show ?case
  proof (cases "n < 16")
    case True
    then show ?thesis using "1.prems" by (subst fmt_hex.simps) simp
  next
    case False
    with "1.prems" have k: "1 < k" by (cases "k = 1") auto
    then obtain j where j: "k = Suc j" "0 < j" by (cases k) auto
    with "1.prems" have "n div 16 < 16 ^ j" by (simp add: less_mult_imp_div_less mult.commute)
    with "1.IH" [OF False j(2)] have "length (fmt_hex (n div 16)) \<le> j" by simp
    with False j show ?thesis by (subst fmt_hex.simps) simp
  qed
qed

lemma fmt_hex_nonempty: "fmt_hex n \<noteq> []"
  by (subst fmt_hex.simps) simp

lemma fmt_08x_length: "length (fmt_08x n) = 8"
proof -
  have "n mod 2 ^ 32 < (16::nat) ^ 8" by simp
  then have "length (fmt_hex (n mod 2 ^ 32)) \<le> 8" by (intro fmt_hex_length) simp_all
  then show ?thesis by (simp add: fmt_08x_def Let_def)
qed

lemma fmt_08x_digits: "set (fmt_08x n) \<subseteq> set ''0123456789abcdef''"
  using fmt_hex_digits [of "n mod 2 ^ 32"] by (auto simp: fmt_08x_def Let_def)

lemma digit_char_dec: "d < 10 \<Longrightarrow> digit_char d \<in> set ''0123456789''"
proof -
  assume d: "d < 10"
  have "''0123456789abcdef'' = ''0123456789'' @ ''abcdef''" by simp
  then have "digit_char d = ''0123456789'' ! d"
    unfolding digit_char_def using d by (simp only: nth_append) simp
  moreover have "''0123456789'' ! d \<in> set ''0123456789''"
    by (rule nth_mem) (use d in simp)
  ultimately show ?thesis by simp
qed

lemma fmt_dec_digits: "set (fmt_dec n) \<subseteq> set ''0123456789''"
proof (induction n rule: fmt_dec.induct)
  case (1 n)
  show ?case
  proof (cases "n < 10")
    case True
    then show ?thesis using digit_char_dec [of n] by (subst fmt_dec.simps) simp
  next
    case False
    have "n mod 10 < 10" by simp
    then have "digit_char (n mod 10) \<in> set ''0123456789''" by (rule digit_char_dec)
    with False "1.IH" show ?thesis by (subst fmt_dec.simps) simp
  qed
qed

lemma fmt_d_chars: "c \<in> set (fmt_d i) \<Longrightarrow> c = CHR ''-'' \<or> c \<in> set ''0123456789''"
proof -
  assume c: "c \<in> set (fmt_d i)"
  show ?thesis
  proof (cases "i < 0")
    case True
    with c have "c = CHR ''-'' \<or> c \<in> set (fmt_dec (nat (- i)))" by (simp add: fmt_d_def)
    then show ?thesis using fmt_dec_digits by blast
  next
    case False
    with c have "c \<in> set (fmt_dec (nat i))" by (simp add: fmt_d_def)
    then show ?thesis using fmt_dec_digits by blast
  qed
qed

lemma fmt_d_no_ctl: "NUL \<notin> set (fmt_d i)" "NL \<notin> set (fmt_d i)" "TAB \<notin> set (fmt_d i)"
proof -
  have "NUL \<noteq> CHR ''-'' \<and> NUL \<notin> set ''0123456789''" by simp
  then show "NUL \<notin> set (fmt_d i)" using fmt_d_chars by blast
  have "NL \<noteq> CHR ''-'' \<and> NL \<notin> set ''0123456789''" by simp
  then show "NL \<notin> set (fmt_d i)" using fmt_d_chars by blast
  have "TAB \<noteq> CHR ''-'' \<and> TAB \<notin> set ''0123456789''" by simp
  then show "TAB \<notin> set (fmt_d i)" using fmt_d_chars by blast
qed

lemma fmt_08x_no_ctl: "NUL \<notin> set (fmt_08x n)" "NL \<notin> set (fmt_08x n)" "TAB \<notin> set (fmt_08x n)"
proof -
  have "NUL \<notin> set ''0123456789abcdef''" by simp
  then show "NUL \<notin> set (fmt_08x n)" using fmt_08x_digits by blast
  have "NL \<notin> set ''0123456789abcdef''" by simp
  then show "NL \<notin> set (fmt_08x n)" using fmt_08x_digits by blast
  have "TAB \<notin> set ''0123456789abcdef''" by simp
  then show "TAB \<notin> set (fmt_08x n)" using fmt_08x_digits by blast
qed

lemma verb_no_NUL: "NUL \<notin> set verb"
  by (simp add: verb_def)

lemma resp_line_no_NUL: "NUL \<notin> set cmd \<Longrightarrow> NUL \<notin> set (resp_line_of k t cmd)"
  by (simp add: resp_line_of_def fmt_d_no_ctl(1) fmt_08x_no_ctl(1))

lemma resp_line_last: "resp_line_of k t cmd \<noteq> []" "last (resp_line_of k t cmd) = NL"
  by (simp_all add: resp_line_of_def)

lemma failed_msg_props:
  "length failed_msg = 26" "NUL \<notin> set failed_msg" "failed_msg \<noteq> []" "last failed_msg = NL"
  by (simp_all add: failed_msg_def)

lemma cstr_take_Suc: "NUL \<in> set buf \<Longrightarrow> take (Suc (length (cstr buf))) buf = cstr buf @ [NUL]"
  unfolding cstr_def by (induction buf) auto

lemma strcmp_callbuf:
  assumes "count < MAX_CALL cfg"
  shows "\<exists>r. strcmp (callbuf_of cfg k ubuf count) (verb @ [NUL]) = Some r \<and>
             (r = 0 \<longleftrightarrow> cstr (callbuf_of cfg k ubuf count) = verb)"
proof -
  have "cstr (verb @ [NUL]) = verb"
    using cstr_append_NUL [OF verb_no_NUL, of "[]"] by simp
  then show ?thesis
    using strcmp_total [of "callbuf_of cfg k ubuf count" "verb @ [NUL]"]
      callbuf_of_props(2) [OF assms, of k ubuf]
    by simp
qed

lemma call_oversized:
  "MAX_CALL cfg \<le> count \<Longrightarrow> getpinfo_call cfg k s cur ubuf count = Inr (s, - EINVAL)"
  by (simp add: getpinfo_call_def)

lemma call_busy:
  "count < MAX_CALL cfg \<Longrightarrow> call_task s \<noteq> None \<Longrightarrow>
   getpinfo_call cfg k s cur ubuf count = Inr (s, - EAGAIN)"
  by (simp add: getpinfo_call_def)

lemma call_nomem:
  "count < MAX_CALL cfg \<Longrightarrow> call_task s = None \<Longrightarrow> \<not> alloc_ok k \<Longrightarrow>
   getpinfo_call cfg k s cur ubuf count = Inr (s\<lparr>respbuf := None\<rparr>, - ENOSPC)"
  by (simp add: getpinfo_call_def kmalloc_def)

lemma call_unrecognised:
  assumes "count < MAX_CALL cfg" and "call_task s = None" and "alloc_ok k"
    and nv: "cstr (callbuf_of cfg k ubuf count) \<noteq> verb"
    and fit: "length failed_msg < MAX_RESP cfg"
  shows "\<exists>b. getpinfo_call cfg k s cur ubuf count =
               Inr (s\<lparr>respbuf := Some b, call_task := Some cur\<rparr>, int count) \<and>
             length b = MAX_RESP cfg \<and> NUL \<in> set b \<and> cstr b = failed_msg"
proof -
  obtain blk where blk: "kmalloc k (MAX_RESP cfg) = Some blk" "length blk = MAX_RESP cfg"
    using assms(3) by (simp add: kmalloc_def)
  from fit blk obtain b0 where b0: "strcpy blk [] = Inr b0"
    using strcpy_fits [of "[]" blk] by auto
  then have lb0: "length b0 = MAX_RESP cfg" using strcpy_Inr(1) blk by fastforce
  with fit obtain b1 where b1: "strcpy b0 failed_msg = Inr b1"
    using strcpy_fits [of failed_msg b0] by auto
  from strcmp_callbuf [OF assms(1), of k ubuf] nv
  obtain r where r: "strcmp (callbuf_of cfg k ubuf count) (verb @ [NUL]) = Some r" "r \<noteq> 0"
    by auto
  have "getpinfo_call cfg k s cur ubuf count =
          Inr (s\<lparr>respbuf := Some b1, call_task := Some cur\<rparr>, int count)"
    using assms(1,2) blk b0 b1 r by (simp add: getpinfo_call_def Let_def)
  moreover have "length b1 = MAX_RESP cfg" "NUL \<in> set b1" "cstr b1 = failed_msg"
    using strcpy_Inr [OF b1] lb0 failed_msg_props(2) by simp_all
  ultimately show ?thesis by blast
qed

lemma call_recognised:
  assumes "count < MAX_CALL cfg" and "call_task s = None" and "alloc_ok k"
    and v: "cstr (callbuf_of cfg k ubuf count) = verb"
    and fitl: "length (resp_line_of k cur verb) < MAX_LINE cfg"
    and fit: "9 + length (resp_line_of k cur verb) < MAX_RESP cfg"
  shows "\<exists>b. getpinfo_call cfg k s cur ubuf count =
               Inr (s\<lparr>respbuf := Some b, call_task := Some cur, f_pos := 0\<rparr>, int count) \<and>
             length b = MAX_RESP cfg \<and> NUL \<in> set b \<and>
             cstr b = ''Success:'' @ [NL] @ resp_line_of k cur verb"
proof -
  let ?hd = "''Success:'' @ [NL]"
  let ?rl = "resp_line_of k cur verb"
  obtain blk where blk: "kmalloc k (MAX_RESP cfg) = Some blk" "length blk = MAX_RESP cfg"
    using assms(3) by (simp add: kmalloc_def)
  from fit blk obtain b0 where b0: "strcpy blk [] = Inr b0"
    using strcpy_fits [of "[]" blk] by auto
  then have lb0: "length b0 = MAX_RESP cfg" using strcpy_Inr(1) blk by fastforce
  with fit obtain b1 where b1: "strcpy b0 ?hd = Inr b1"
    using strcpy_fits [of ?hd b0] by auto
  have pb1: "length b1 = MAX_RESP cfg" "NUL \<in> set b1" "cstr b1 = ?hd"
    using strcpy_Inr [OF b1] lb0 by simp_all
  with fit obtain b2 where b2: "strcat b1 ?rl = Inr b2"
    using strcat_fits [of b1 ?rl] by auto
  have nn: "NUL \<notin> set ?rl" by (rule resp_line_no_NUL [OF verb_no_NUL])
  from strcmp_callbuf [OF assms(1), of k ubuf] v
  have r: "strcmp (callbuf_of cfg k ubuf count) (verb @ [NUL]) = Some 0"
    by auto
  have "getpinfo_call cfg k s cur ubuf count =
          Inr (s\<lparr>respbuf := Some b2, call_task := Some cur, f_pos := 0\<rparr>, int count)"
    using assms(1,2) blk b0 b1 b2 r v fitl by (simp add: getpinfo_call_def Let_def)
  moreover have "length b2 = MAX_RESP cfg" "NUL \<in> set b2" "cstr b2 = ?hd @ ?rl"
    using strcat_Inr [OF b2] pb1 nn by simp_all
  ultimately show ?thesis by (metis append_assoc)
qed

lemma return_foreign:
  "call_task s \<noteq> Some u \<Longrightarrow> getpinfo_return cfg s u m uw = Inr (s, 0, [])"
  by (auto simp: getpinfo_return_def)

lemma return_owner_full:
  assumes "call_task s = Some t" and "respbuf s = Some b" and "NUL \<in> set b"
    and "length (cstr b) < m"
  shows "getpinfo_return cfg s t m uw =
           Inr (s\<lparr>respbuf := None, call_task := None, f_pos := 0\<rparr>,
                int (Suc (length (cstr b)) - min (Suc (length (cstr b))) uw),
                take (min (Suc (length (cstr b))) uw) b)"
  using assms by (simp add: getpinfo_return_def strlen_def copy_to_user_def Let_def)

lemma size_t_dec_pos: "0 < m \<Longrightarrow> m < 2 ^ 64 \<Longrightarrow> size_t_dec m = m - 1"
proof -
  assume m: "0 < m" "m < 2 ^ 64"
  then have "m + 2 ^ 64 - 1 = (m - 1) + 1 * 2 ^ 64" by simp
  then have "(m + 2 ^ 64 - 1) mod 2 ^ 64 = (m - 1) mod 2 ^ 64"
    by (simp only: mod_mult_self1)
  with m show ?thesis by (simp add: size_t_dec_def)
qed

lemma size_t_dec_zero: "size_t_dec 0 = 2 ^ 64 - 1"
  by (simp add: size_t_dec_def)

lemma return_owner_trunc:
  assumes "call_task s = Some t" and "respbuf s = Some b" and "NUL \<in> set b"
    and "0 < m" and "m \<le> length (cstr b)" and "m < 2 ^ 64"
  shows "getpinfo_return cfg s t m uw =
           Inr (s\<lparr>respbuf := None, call_task := None, f_pos := 0\<rparr>,
                int (m - min m uw), take (min m uw) (b[m - 1 := NUL]))"
proof -
  have "m - 1 < length b" using assms(3,4,5) cstr_length_less [of b] by simp
  then show ?thesis
    using assms by (simp add: getpinfo_return_def strlen_def copy_to_user_def Let_def size_t_dec_pos)
qed

lemma return_owner_zero:
  assumes "call_task s = Some t" and "respbuf s = Some b" and "NUL \<in> set b"
    and "length b < 2 ^ 64"
  shows "getpinfo_return cfg s t 0 uw = Inl OutOfBounds"
  using assms by (simp add: getpinfo_return_def strlen_def Let_def size_t_dec_zero)

lemma return_cases:
  assumes "getpinfo_return cfg s cur m uw = Inr (s', r, out)"
  shows "(call_task s \<noteq> Some cur \<and> s' = s) \<or>
         (call_task s = Some cur \<and> s' = s\<lparr>respbuf := None, call_task := None, f_pos := 0\<rparr>)"
  using assms
  by (auto simp: getpinfo_return_def Let_def copy_to_user_def
           split: if_splits option.splits sum.splits)

lemma call_cases:
  assumes "getpinfo_call cfg k s cur ubuf count = Inr (s', r)"
  shows "(s' = s \<and> r < 0) \<or>
         (call_task s = None \<and> s' = s\<lparr>respbuf := None\<rparr> \<and> r < 0) \<or>
         (call_task s = None \<and> r = int count \<and> call_task s' = Some cur \<and>
            (\<exists>b. respbuf s' = Some b \<and> length b = MAX_RESP cfg \<and> NUL \<in> set b \<and>
                 (cstr b = failed_msg \<or>
                  cstr b = ''Success:'' @ [NL] @ resp_line_of k cur verb)))"
proof (cases "MAX_CALL cfg \<le> count")
  case True
  with assms show ?thesis by (simp add: call_oversized EINVAL_def)
next
  case False
  then have c: "count < MAX_CALL cfg" by simp
  show ?thesis
  proof (cases "call_task s = None")
    case False
    with assms c show ?thesis by (simp add: call_busy EAGAIN_def)
  next
    case empty: True
    show ?thesis
    proof (cases "alloc_ok k")
      case False
      with assms c empty show ?thesis by (simp add: call_nomem ENOSPC_def)
    next
      case ok: True
      then obtain blk where blk: "kmalloc k (MAX_RESP cfg) = Some blk" "length blk = MAX_RESP cfg"
        by (simp add: kmalloc_def)
      from strcmp_callbuf [OF c, of k ubuf]
      obtain x where x: "strcmp (callbuf_of cfg k ubuf count) (verb @ [NUL]) = Some x"
        "x = 0 \<longleftrightarrow> cstr (callbuf_of cfg k ubuf count) = verb" by blast
      from assms c empty blk obtain b0 where b0: "strcpy blk [] = Inr b0"
        by (auto simp: getpinfo_call_def split: sum.splits)
      have lb0: "length b0 = MAX_RESP cfg" using strcpy_Inr(1) [OF b0] blk by simp
      show ?thesis
      proof (cases "x = 0")
        case False
        with assms c empty blk b0 x obtain b1 where b1: "strcpy b0 failed_msg = Inr b1"
          and s': "s' = s\<lparr>respbuf := Some b1, call_task := Some cur\<rparr>" "r = int count"
          by (auto simp: getpinfo_call_def Let_def split: sum.splits)
        have "length b1 = MAX_RESP cfg" "NUL \<in> set b1" "cstr b1 = failed_msg"
          using strcpy_Inr [OF b1] lb0 failed_msg_props(2) by simp_all
        with s' empty show ?thesis by simp
      next
        case True
        with x have v: "cstr (callbuf_of cfg k ubuf count) = verb" by simp
        let ?hd = "''Success:'' @ [NL]"
        let ?rl = "resp_line_of k cur verb"
        from assms c empty blk b0 x True v obtain b1 b2 where b1: "strcpy b0 ?hd = Inr b1"
          and b2: "strcat b1 ?rl = Inr b2"
          and s': "s' = s\<lparr>respbuf := Some b2, call_task := Some cur, f_pos := 0\<rparr>" "r = int count"
          by (auto simp: getpinfo_call_def Let_def split: sum.splits if_splits)
        have pb1: "length b1 = MAX_RESP cfg" "NUL \<in> set b1" "cstr b1 = ?hd"
          using strcpy_Inr [OF b1] lb0 by simp_all
        have "length b2 = MAX_RESP cfg" "NUL \<in> set b2" "cstr b2 = ?hd @ ?rl"
          using strcat_Inr [OF b2] pb1 resp_line_no_NUL [OF verb_no_NUL] by simp_all
        with s' empty show ?thesis by simp
      qed
    qed
  qed
qed

text \<open>The formatters agree with the specification's side.\<close>

lemma digit_char_0: "digit_char 0 = CHR ''0''"
  by (simp add: digit_char_def)

lemma fmt_hex_step:
  "0 < k \<Longrightarrow>
   replicate (Suc k - length (fmt_hex n)) CHR ''0'' @ fmt_hex n =
   (replicate (k - length (fmt_hex (n div 16))) CHR ''0'' @ fmt_hex (n div 16)) @
     [digit_char (n mod 16)]"
proof (cases "n < 16")
  case True
  assume k: "0 < k"
  from True have a: "fmt_hex n = [digit_char n]" by (subst fmt_hex.simps) simp
  have z: "fmt_hex 0 = [CHR ''0'']"
    by (subst fmt_hex.simps) (simp add: digit_char_0)
  have "replicate k CHR ''0'' = replicate (k - 1) CHR ''0'' @ [CHR ''0'']"
    using k by (cases k) (simp_all add: replicate_append_same)
  with True show ?thesis by (simp add: a z)
next
  case False
  then have "fmt_hex n = fmt_hex (n div 16) @ [digit_char (n mod 16)]"
    by (subst fmt_hex.simps) simp
  then show ?thesis by simp
qed

lemma fmt_hex_padded:
  "0 < k \<Longrightarrow> n < 16 ^ k \<Longrightarrow>
   replicate (k - length (fmt_hex n)) CHR ''0'' @ fmt_hex n =
   map (\<lambda>i. digit_char (n div 16 ^ (k - 1 - i) mod 16)) [0..<k]"
proof (induction k arbitrary: n)
  case 0
  then show ?case by simp
next
  case (Suc k)
  show ?case
  proof (cases "k = 0")
    case True
    with Suc.prems have "n < 16" by simp
    then have "fmt_hex n = [digit_char n]" by (subst fmt_hex.simps) simp
    with True \<open>n < 16\<close> show ?thesis by simp
  next
    case False
    then have k: "0 < k" by simp
    from Suc.prems have d: "n div 16 < 16 ^ k" by (simp add: less_mult_imp_div_less mult.commute)
    have "map (\<lambda>i. digit_char (n div 16 ^ (Suc k - 1 - i) mod 16)) [0..<k] =
          map (\<lambda>i. digit_char (n div 16 div 16 ^ (k - 1 - i) mod 16)) [0..<k]"
    proof (rule map_cong [OF refl])
      fix i assume "i \<in> set [0..<k]"
      then have "k - i = Suc (k - 1 - i)" by auto
      then show "digit_char (n div 16 ^ (Suc k - 1 - i) mod 16) =
                 digit_char (n div 16 div 16 ^ (k - 1 - i) mod 16)"
        by (simp add: div_mult2_eq)
    qed
    then have "map (\<lambda>i. digit_char (n div 16 ^ (Suc k - 1 - i) mod 16)) [0..<Suc k] =
          map (\<lambda>i. digit_char (n div 16 div 16 ^ (k - 1 - i) mod 16)) [0..<k] @
            [digit_char (n mod 16)]"
      by simp
    also have "\<dots> = (replicate (k - length (fmt_hex (n div 16))) CHR ''0'' @ fmt_hex (n div 16)) @
            [digit_char (n mod 16)]"
      using Suc.IH [OF k d] by simp
    also have "\<dots> = replicate (Suc k - length (fmt_hex n)) CHR ''0'' @ fmt_hex n"
      using fmt_hex_step [OF k, of n] by simp
    finally show ?thesis by simp
  qed
qed

lemma fmt_08x_spec: "fmt_08x w = spec_hex8 w"
proof -
  have "w mod 2 ^ 32 < (16::nat) ^ 8" by simp
  from fmt_hex_padded [OF _ this]
  show ?thesis by (simp add: fmt_08x_def spec_hex8_def Let_def digit_char_def)
qed

lemma digit_char_value: "d < 10 \<Longrightarrow> (of_char (digit_char d) :: nat) - 48 = d"
proof -
  assume "d < 10"
  then have "d \<in> {0, 1, 2, 3, 4, 5, 6, 7, 8, 9}" by auto
  then show ?thesis by (auto simp: digit_char_def)
qed

lemma spec_read_nat_snoc:
  "spec_read_nat (xs @ [c]) = 10 * spec_read_nat xs + (of_char c - 48)"
  by (simp add: spec_read_nat_def)

lemma spec_read_fmt_dec: "spec_read_nat (fmt_dec n) = n"
proof (induction n rule: fmt_dec.induct)
  case (1 n)
  show ?case
  proof (cases "n < 10")
    case True
    then have "fmt_dec n = [digit_char n]" by (subst fmt_dec.simps) simp
    with True show ?thesis by (simp add: spec_read_nat_def digit_char_value)
  next
    case False
    then have "fmt_dec n = fmt_dec (n div 10) @ [digit_char (n mod 10)]"
      by (subst fmt_dec.simps) simp
    with False "1.IH" show ?thesis
      by (simp add: spec_read_nat_snoc digit_char_value)
  qed
qed

lemma fmt_dec_nonempty: "fmt_dec n \<noteq> []"
  by (subst fmt_dec.simps) simp

lemma fmt_dec_hd: "hd (fmt_dec n) \<noteq> CHR ''-''"
proof -
  have "hd (fmt_dec n) \<in> set (fmt_dec n)" using fmt_dec_nonempty by simp
  then have "hd (fmt_dec n) \<in> set ''0123456789''" using fmt_dec_digits by blast
  moreover have "CHR ''-'' \<notin> set ''0123456789''" by simp
  ultimately show ?thesis by metis
qed

lemma spec_read_fmt_d: "spec_read_int (fmt_d i) = i"
proof (cases "i < 0")
  case True
  then show ?thesis by (simp add: fmt_d_def spec_read_int_def spec_read_fmt_dec)
next
  case False
  obtain c cs where c: "fmt_dec (nat i) = c # cs" using fmt_dec_nonempty by (cases "fmt_dec (nat i)") auto
  with fmt_dec_hd [of "nat i"] have "c \<noteq> CHR ''-''" by simp
  moreover have "spec_read_nat (c # cs) = nat i" using spec_read_fmt_dec [of "nat i"] c by simp
  ultimately show ?thesis using False c by (simp add: fmt_d_def spec_read_int_def)
qed

section \<open>Facts about the call buffer and the read handler\<close>

lemma cstr_update_after_NUL: "NUL \<in> set (take i xs) \<Longrightarrow> cstr (xs[i := y]) = cstr xs"
proof (induction xs arbitrary: i)
  case Nil
  then show ?case by simp
next
  case (Cons x xs)
  then show ?case by (cases i) (auto simp: cstr_def)
qed

lemma cstr_append_terminated: "NUL \<in> set xs \<Longrightarrow> cstr (xs @ ys) = cstr xs"
  unfolding cstr_def by (induction xs) auto

lemma cstr_take_terminated: "NUL \<in> set (take n xs) \<Longrightarrow> cstr (take n xs) = cstr xs"
proof (induction xs arbitrary: n)
  case Nil
  then show ?case by simp
next
  case (Cons x xs)
  then show ?case by (cases n) (auto simp: cstr_def)
qed

text \<open>
  A payload that carries its own terminator within the \<open>count\<close> bytes copied is read
  as that string, whatever the stack slot held before.
\<close>

lemma terminated_payload_callbuf:
  assumes "count < MAX_CALL cfg" and "NUL \<in> set (take count ubuf)"
  shows "cstr (callbuf_of cfg k ubuf count) = cstr ubuf"
proof -
  let ?stack = "map (stack_fill k) [0..<MAX_CALL cfg]"
  let ?c = "copy_from_user ?stack ubuf count"
  have c: "?c = take count ubuf @ (replicate (count - length ubuf) NUL @ drop count ?stack)"
    by (simp add: copy_from_user_def)
  from assms(2) obtain j where j: "j < length (take count ubuf)" "take count ubuf ! j = NUL"
    by (auto simp: in_set_conv_nth)
  then have j1: "j < MAX_CALL cfg - 1" using assms(1) by auto
  have "?c ! j = NUL" unfolding c using j by (simp add: nth_append)
  moreover have "j < length ?c" unfolding c using j by auto
  ultimately have "take (MAX_CALL cfg - 1) ?c ! j = NUL" "j < length (take (MAX_CALL cfg - 1) ?c)"
    using j1 by simp_all
  then have "NUL \<in> set (take (MAX_CALL cfg - 1) ?c)"
    by (metis nth_mem)
  then have "cstr (callbuf_of cfg k ubuf count) = cstr ?c"
    unfolding callbuf_of_def by (rule cstr_update_after_NUL)
  also have "\<dots> = cstr (take count ubuf)"
    unfolding c using assms(2) by (rule cstr_append_terminated)
  also have "\<dots> = cstr ubuf" using assms(2) by (rule cstr_take_terminated)
  finally show ?thesis .
qed

lemma callbuf_nth_stack:
  assumes "take 8 ubuf = verb" and "9 < MAX_CALL cfg"
  shows "callbuf_of cfg k ubuf 8 ! 8 = stack_fill k 8"
proof -
  have lu: "8 \<le> length ubuf"
  proof (rule ccontr)
    assume "\<not> 8 \<le> length ubuf"
    then have "length (take 8 ubuf) < 8" by simp
    with assms(1) show False by (simp add: verb_def)
  qed
  have lv: "length verb = 8" by (simp add: verb_def)
  let ?stack = "map (stack_fill k) [0..<MAX_CALL cfg]"
  have "copy_from_user ?stack ubuf 8 = verb @ drop 8 ?stack"
    using assms(1) lu by (simp add: copy_from_user_def)
  then have "copy_from_user ?stack ubuf 8 ! 8 = drop 8 ?stack ! 0"
    using lv by (simp add: nth_append)
  also have "\<dots> = stack_fill k 8" using assms(2) by simp
  finally have "copy_from_user ?stack ubuf 8 ! 8 = stack_fill k 8" .
  moreover have "MAX_CALL cfg - 1 \<noteq> 8" using assms(2) by simp
  ultimately show ?thesis by (simp add: callbuf_of_def)
qed

text \<open>
  An unterminated \<^verbatim>\<open>getpinfo\<close> (\<open>count = 8\<close>) is recognised only if the stale byte of the
  stack slot at index 8 happens to be zero (or \<^verbatim>\<open>MAX_CALL\<close> is 9, when the forced
  terminator lands there).
\<close>

lemma unterminated_verb_needs_zero_stack:
  assumes "take 8 ubuf = verb" and "9 < MAX_CALL cfg" and "stack_fill k 8 \<noteq> NUL"
  shows "cstr (callbuf_of cfg k ubuf 8) \<noteq> verb"
proof
  assume v: "cstr (callbuf_of cfg k ubuf 8) = verb"
  have "8 < MAX_CALL cfg" using assms(2) by simp
  then have "NUL \<in> set (callbuf_of cfg k ubuf 8)" by (rule callbuf_of_props(2))
  then have "callbuf_of cfg k ubuf 8 ! length (cstr (callbuf_of cfg k ubuf 8)) = NUL"
    by (rule cstr_nth_NUL)
  moreover have "length verb = 8" by (simp add: verb_def)
  ultimately have "callbuf_of cfg k ubuf 8 ! 8 = NUL" using v by (simp only:)
  with callbuf_nth_stack [OF assms(1,2), of k] assms(3) show False by simp
qed

text \<open>
  What the read handler does for the recorded caller when the user's buffer is writable
  for all \<open>m\<close> bytes (\<open>m \<le> uw\<close>) and \<open>m\<close> is positive: it stores
  \<open>min m (strlen + 1)\<close> bytes, the last of them a terminator, and returns 0, the
  residue of \<^verbatim>\<open>copy_to_user\<close>.
\<close>

lemma owner_fetch_delivery:
  assumes "call_task s = Some t" and "respbuf s = Some b" and "NUL \<in> set b"
    and "0 < m" and "m \<le> uw" and "m < 2 ^ 64"
  shows "\<exists>s' out. getpinfo_return cfg s t m uw = Inr (s', 0, out) \<and>
                  length out = min m (Suc (length (cstr b))) \<and> last out = NUL"
proof (cases "length (cstr b) < m")
  case True
  then have "min (Suc (length (cstr b))) uw = Suc (length (cstr b))" using assms(5) by simp
  with return_owner_full [OF assms(1,2,3) True, of cfg uw]
  have "getpinfo_return cfg s t m uw =
      Inr (s\<lparr>respbuf := None, call_task := None, f_pos := 0\<rparr>, 0, cstr b @ [NUL])"
    by (simp add: cstr_take_Suc [OF assms(3)])
  moreover have "length (cstr b @ [NUL]) = min m (Suc (length (cstr b)))" using True by simp
  ultimately show ?thesis by auto
next
  case False
  then have le: "m \<le> length (cstr b)" by simp
  have lb: "m - 1 < length b" "m \<le> length b"
    using le assms(4) cstr_length_less [OF assms(3)] by simp_all
  let ?out = "take m (b[m - 1 := NUL])"
  have "min m uw = m" using assms(5) by simp
  with return_owner_trunc [OF assms(1,2,3,4) le assms(6), of cfg uw]
  have "getpinfo_return cfg s t m uw =
      Inr (s\<lparr>respbuf := None, call_task := None, f_pos := 0\<rparr>, 0, ?out)"
    by simp
  moreover have "length ?out = min m (Suc (length (cstr b)))" using lb le by simp
  moreover have "last ?out = NUL"
  proof -
    have "?out \<noteq> []" using assms(4) lb by auto
    then have "last ?out = ?out ! (length ?out - 1)" by (rule last_conv_nth)
    also have "\<dots> = b[m - 1 := NUL] ! (m - 1)" using lb assms(4) by simp
    also have "\<dots> = NUL" using lb by simp
    finally show ?thesis .
  qed
  ultimately show ?thesis by blast
qed

lemma length_payload: "length (payload ubuf count) = count"
  by (auto simp: payload_def)

lemma copy_from_user_payload: "copy_from_user to ubuf n = payload ubuf n @ drop n to"
  by (simp add: copy_from_user_def payload_def)

lemma callbuf_take_payload:
  assumes "count < MAX_CALL cfg"
  shows "take count (callbuf_of cfg k ubuf count) = payload ubuf count"
proof -
  have "count \<le> MAX_CALL cfg - 1" using assms by simp
  then have "take count (callbuf_of cfg k ubuf count) =
      take count (copy_from_user (map (stack_fill k) [0..<MAX_CALL cfg]) ubuf count)"
    unfolding callbuf_of_def by (rule take_update_cancel)
  then show ?thesis by (simp add: copy_from_user_payload length_payload)
qed

lemma cstr_prefix_no_NUL:
  assumes "NUL \<notin> set (take n xs)"
  shows "take n (cstr xs) = take n xs"
  using assms unfolding cstr_def
proof (induction xs arbitrary: n)
  case Nil
  then show ?case by simp
next
  case (Cons x xs)
  then show ?case by (cases n) auto
qed

text \<open>A payload with a terminator among its bytes is read as the string before it.\<close>

lemma callbuf_terminated:
  assumes "count < MAX_CALL cfg" and "NUL \<in> set (payload ubuf count)"
  shows "cstr (callbuf_of cfg k ubuf count) = cstr (payload ubuf count)"
proof -
  let ?c = "callbuf_of cfg k ubuf count"
  have "?c = take count ?c @ drop count ?c" by simp
  then have "?c = payload ubuf count @ drop count ?c"
    using callbuf_take_payload [OF assms(1)] by simp
  then have "cstr ?c = cstr (payload ubuf count @ drop count ?c)" by simp
  also have "\<dots> = cstr (payload ubuf count)"
    using assms(2) by (rule cstr_append_terminated)
  finally show ?thesis .
qed

text \<open>A payload without a terminator that is not a prefix of the verb is never read as
  the verb, whatever follows it on the stack.\<close>

lemma callbuf_unterminated:
  assumes "count < MAX_CALL cfg" and "NUL \<notin> set (payload ubuf count)"
    and "payload ubuf count \<noteq> take count verb"
  shows "cstr (callbuf_of cfg k ubuf count) \<noteq> verb"
proof
  let ?c = "callbuf_of cfg k ubuf count"
  assume v: "cstr ?c = verb"
  have "NUL \<notin> set (take count ?c)"
    using callbuf_take_payload [OF assms(1)] assms(2) by simp
  then have "take count (cstr ?c) = take count ?c" by (rule cstr_prefix_no_NUL)
  with v have "take count verb = payload ubuf count"
    using callbuf_take_payload [OF assms(1)] by simp
  with assms(3) show False by simp
qed

lemma fmt_d_zero: "fmt_d 0 = ''0''"
  by (simp add: fmt_d_def fmt_dec.simps digit_char_def)

lemma fmt_d_charset: "set (fmt_d i) \<subseteq> set ''-0123456789''"
proof
  fix c assume "c \<in> set (fmt_d i)"
  then have "c = CHR ''-'' \<or> c \<in> set ''0123456789''" by (rule fmt_d_chars)
  moreover have "set ''-0123456789'' = insert CHR ''-'' (set ''0123456789'')" by simp
  ultimately show "c \<in> set ''-0123456789''" by blast
qed

lemma success_text_spec:
  "''Success:'' @ [NL] @ resp_line_of k t verb =
     spec_success_text (fmt_d (cur_pid_of k t)) (fmt_d (parent_pid_of k t))
       (fmt_d (state (tasks k t))) (spec_hex8 (flags (tasks k t)))
       (fmt_d (normal_prio (tasks k t))) ''getpinfo''"
  by (simp add: resp_line_of_def spec_success_text_def verb_def fmt_08x_spec)

lemma cur_pid_of_case:
  "cur_pid_of k t = (case get_task_pid k t of None \<Rightarrow> 0 | Some p \<Rightarrow> pid_vnr k p)"
  by (simp add: cur_pid_of_def split: option.splits)

lemma parent_pid_of_case:
  "parent_pid_of k t =
     (case real_parent (tasks k t) of
        None \<Rightarrow> 0
      | Some u \<Rightarrow> (case get_task_pid k u of None \<Rightarrow> 0 | Some p \<Rightarrow> pid_vnr k p))"
  by (simp add: parent_pid_of_def split: option.splits)

lemma success_response_for_resp_line:
  "success_response_for k t (''Success:'' @ [NL] @ resp_line_of k t verb)"
proof (intro exI conjI)
  show "''Success:'' @ [NL] @ resp_line_of k t verb =
     spec_success_text (fmt_d (cur_pid_of k t)) (fmt_d (parent_pid_of k t))
       (fmt_d (state (tasks k t))) (spec_hex8 (flags (tasks k t)))
       (fmt_d (normal_prio (tasks k t))) ''getpinfo''"
    by (rule success_text_spec)
  show "set (fmt_d (cur_pid_of k t) @ fmt_d (parent_pid_of k t) @ fmt_d (state (tasks k t)) @
             fmt_d (normal_prio (tasks k t))) \<subseteq> set ''-0123456789''"
    using fmt_d_charset by (simp only: set_append Un_subset_iff)
  show "spec_read_int (fmt_d (cur_pid_of k t)) =
      (case get_task_pid k t of None \<Rightarrow> 0 | Some p \<Rightarrow> pid_vnr k p)"
    by (simp only: spec_read_fmt_d cur_pid_of_case)
  show "spec_read_int (fmt_d (parent_pid_of k t)) =
      (case real_parent (tasks k t) of
         None \<Rightarrow> 0
       | Some u \<Rightarrow> (case get_task_pid k u of None \<Rightarrow> 0 | Some p \<Rightarrow> pid_vnr k p))"
    by (simp only: spec_read_fmt_d parent_pid_of_case)
  show "spec_read_int (fmt_d (state (tasks k t))) = state (tasks k t)"
    by (rule spec_read_fmt_d)
  show "spec_read_int (fmt_d (normal_prio (tasks k t))) = normal_prio (tasks k t)"
    by (rule spec_read_fmt_d)
qed

section \<open>The slot over a history\<close>

lemma slot_ok_mono:
  assumes "slot_ok cfg S s" and "S \<subseteq> S'"
  shows "slot_ok cfg S' s"
proof (intro conjI allI impI)
  show "call_task s = None \<longleftrightarrow> respbuf s = None" using assms(1) by blast
next
  fix t b assume a: "call_task s = Some t \<and> respbuf s = Some b"
  with assms(1) have l: "length b = MAX_RESP cfg" and n: "NUL \<in> set b"
    and e: "\<exists>k ubuf count. Submit k t ubuf count \<in> S \<and>
           (cstr b = ''Failed: invalid operation'' @ [NL] \<or> success_response_for k t (cstr b))"
    by blast+
  from l show "length b = MAX_RESP cfg" .
  from n show "NUL \<in> set b" .
  from e obtain k ubuf count where "Submit k t ubuf count \<in> S"
    and r: "cstr b = ''Failed: invalid operation'' @ [NL] \<or> success_response_for k t (cstr b)"
    by blast
  with assms(2) have "Submit k t ubuf count \<in> S'" by blast
  with r show "\<exists>k ubuf count. Submit k t ubuf count \<in> S' \<and>
           (cstr b = ''Failed: invalid operation'' @ [NL] \<or> success_response_for k t (cstr b))"
    by blast
qed

lemma slot_ok_empty:
  assumes "call_task s = None" and "respbuf s = None"
  shows "slot_ok cfg S s"
  using assms by simp

lemma call_ok:
  assumes c: "getpinfo_call cfg k s cur ubuf count = Inr (s', r)" and ok: "slot_ok cfg S s"
  shows "slot_ok cfg (insert (Submit k cur ubuf count) S) s'"
proof -
  from call_cases [OF c]
  consider "s' = s" | "call_task s = None" "s' = s\<lparr>respbuf := None\<rparr>"
    | b where "call_task s' = Some cur" "respbuf s' = Some b" "length b = MAX_RESP cfg"
        "NUL \<in> set b" "cstr b = failed_msg \<or> cstr b = ''Success:'' @ [NL] @ resp_line_of k cur verb"
    by (elim disjE conjE exE) blast+
  then show ?thesis
  proof cases
    case 1
    have "S \<subseteq> insert (Submit k cur ubuf count) S" by blast
    with ok show ?thesis unfolding 1 by (rule slot_ok_mono)
  next
    case 2
    then have "call_task s' = None" "respbuf s' = None" by simp_all
    then show ?thesis by (rule slot_ok_empty)
  next
    case 3
    have resp: "cstr b = ''Failed: invalid operation'' @ [NL] \<or> success_response_for k cur (cstr b)"
    proof (rule disjE [OF 3(5)])
      assume "cstr b = failed_msg"
      then show ?thesis by (simp add: failed_msg_def)
    next
      assume "cstr b = ''Success:'' @ [NL] @ resp_line_of k cur verb"
      then have "success_response_for k cur (cstr b)"
        using success_response_for_resp_line [of k cur] by (simp only:)
      then show ?thesis by (rule disjI2)
    qed
    show ?thesis
    proof (intro conjI allI impI)
      show "call_task s' = None \<longleftrightarrow> respbuf s' = None" using 3(1,2) by simp
    next
      fix t b' assume "call_task s' = Some t \<and> respbuf s' = Some b'"
      with 3(1,2) have e: "t = cur" "b' = b" by simp_all
      show "length b' = MAX_RESP cfg" using e 3(3) by simp
      show "NUL \<in> set b'" using e 3(4) by simp
      have "Submit k cur ubuf count \<in> insert (Submit k cur ubuf count) S" by simp
      with resp show "\<exists>ka ubufa counta.
          Submit ka t ubufa counta \<in> insert (Submit k cur ubuf count) S \<and>
          (cstr b' = ''Failed: invalid operation'' @ [NL] \<or> success_response_for ka t (cstr b'))"
        unfolding e by blast
    qed
  qed
qed

lemma return_ok:
  assumes c: "getpinfo_return cfg s cur m uw = Inr (s', r, out)" and ok: "slot_ok cfg S s"
  shows "slot_ok cfg S s'"
proof -
  from return_cases [OF c]
  consider "s' = s" | "s' = s\<lparr>respbuf := None, call_task := None, f_pos := 0\<rparr>" by blast
  then show ?thesis
  proof cases
    case 1
    show ?thesis unfolding 1 by (rule ok)
  next
    case 2
    then have "call_task s' = None" "respbuf s' = None" by simp_all
    then show ?thesis by (rule slot_ok_empty)
  qed
qed

lemma step_ok:
  assumes "step cfg s x = Inr s'" and "slot_ok cfg S s"
  shows "slot_ok cfg (insert x S) s'"
proof (cases x)
  case (Submit k cur ubuf count)
  with assms(1) obtain r where "getpinfo_call cfg k s cur ubuf count = Inr (s', r)"
    by (auto split: sum.splits)
  then show ?thesis unfolding Submit using assms(2) by (rule call_ok)
next
  case (Fetch cur count uw)
  with assms(1) obtain r out where "getpinfo_return cfg s cur count uw = Inr (s', r, out)"
    by (auto split: sum.splits)
  then have "slot_ok cfg S s'" using assms(2) by (rule return_ok)
  moreover have "S \<subseteq> insert x S" by blast
  ultimately show ?thesis by (rule slot_ok_mono)
qed

lemma run_ok:
  "slot_ok cfg S s \<Longrightarrow> run cfg s ops = Inr s' \<Longrightarrow> slot_ok cfg (S \<union> set ops) s'"
proof (induction ops arbitrary: s S)
  case Nil
  then show ?case by simp
next
  case (Cons x xs)
  from Cons.prems(2) obtain s1 where s1: "step cfg s x = Inr s1" and rest: "run cfg s1 xs = Inr s'"
    by (auto split: sum.splits)
  from s1 Cons.prems(1) have "slot_ok cfg (insert x S) s1" by (rule step_ok)
  then have "slot_ok cfg (insert x S \<union> set xs) s'" using rest by (rule Cons.IH)
  moreover have "insert x S \<union> set xs \<subseteq> S \<union> set (x # xs)" by auto
  ultimately show ?case by (rule slot_ok_mono)
qed

section \<open>A worked scenario\<close>

text \<open>The scenario used below: task 7 writes \<^verbatim>\<open>hello\<close> to the empty slot.\<close>

lemma demo_hello:
  "getpinfo_call demo_cfg demo_kernel init_state 7 ''hello'' 5 = Inr (busy_state, 5)"
  by (simp add: getpinfo_call_def demo_cfg_def demo_kernel_def init_state_def busy_state_def
      kmalloc_def strcpy_def callbuf_of_def copy_from_user_def verb_def failed_msg_def
      upt_conv_Cons map_replicate_const)
     (simp add: eval_nat_numeral)

lemma demo_callbuf_verb:
  "cstr (callbuf_of demo_cfg demo_kernel (''getpinfo'' @ [NUL]) 9) = ''getpinfo''"
  by (simp add: callbuf_of_def demo_cfg_def demo_kernel_def copy_from_user_def cstr_def
      upt_conv_Cons)

lemma demo_callbuf_hello:
  "cstr (callbuf_of demo_cfg demo_kernel ''hello'' 5) \<noteq> ''getpinfo''"
  by (simp add: callbuf_of_def demo_cfg_def demo_kernel_def copy_from_user_def cstr_def
      upt_conv_Cons)

lemma demo_fmt: "fmt_d (cur_pid_of demo_kernel 7) = ''7''" "fmt_d (parent_pid_of demo_kernel 7) = ''3''"
  "fmt_d (state (tasks demo_kernel 7)) = ''0''" "fmt_d (normal_prio (tasks demo_kernel 7)) = ''120''"
  by (simp_all add: cur_pid_of_def parent_pid_of_def demo_kernel_def
      fmt_d_def fmt_dec.simps digit_char_def)

lemma demo_fmt_flags: "fmt_08x (flags (tasks demo_kernel 7)) = ''00400000''"
  apply (simp add: demo_kernel_def fmt_08x_def fmt_hex.simps digit_char_def)
  apply (simp add: numeral_2_eq_2)
  done

lemma demo_resp_line:
  "resp_line_of demo_kernel 7 ''getpinfo'' =
     TAB # ''Current PID 7'' @ NL # TAB # ''parent 3'' @ NL # TAB # ''state 0'' @
     NL # TAB # ''flags 00400000'' @ NL # TAB # ''priority 120'' @ NL # TAB #
     ''command getpinfo'' @ [NL]"
  by (simp add: resp_line_of_def demo_fmt demo_fmt_flags)

lemma demo_busy_props:
  "call_task busy_state = Some 7"
  "respbuf busy_state = Some (failed_msg @ NUL # replicate 93 CHR ''x'')"
  "NUL \<in> set (failed_msg @ NUL # replicate 93 CHR ''x'')"
  "cstr (failed_msg @ NUL # replicate 93 CHR ''x'') = failed_msg"
  using cstr_append_NUL [OF failed_msg_props(2)] by (simp_all add: busy_state_def)

lemma demo_fetch:
  "getpinfo_return demo_cfg busy_state 7 512 512 =
     Inr (init_state, 0, ''Failed: invalid operation'' @ [NL, NUL])"
proof -
  let ?b = "failed_msg @ NUL # replicate 93 CHR ''x''"
  have "length (cstr ?b) < 512" by (simp add: demo_busy_props(4) failed_msg_props(1))
  from return_owner_full [OF demo_busy_props(1,2,3) this, of demo_cfg 512]
  show ?thesis
    apply (simp add: demo_busy_props(4) failed_msg_props(1))
    apply (simp add: busy_state_def init_state_def failed_msg_def)
    done
qed

section \<open>The claims\<close>

text \<open>
  \<^bold>\<open>C1\<close> (mutual exclusion), as amended. The length check comes before the slot
  check, so a write while the slot is occupied returns \<^verbatim>\<open>-EAGAIN\<close> when its length is
  below \<^verbatim>\<open>MAX_CALL\<close> and \<^verbatim>\<open>-EINVAL\<close> otherwise; in both cases the state is unchanged.
  In particular, after a write by task \<open>a\<close> that was accepted (it returned its byte
  count), a write of admissible length by any task returns \<^verbatim>\<open>-EAGAIN\<close> and changes
  nothing. (A read by another task in between changes nothing either, see C2.)
\<close>

theorem submit_while_occupied:
  "(call_task s \<noteq> None \<longrightarrow>
      getpinfo_call cfg k s cur ubuf count =
        Inr (s, if count < MAX_CALL cfg then - EAGAIN else - EINVAL)) \<and>
   (getpinfo_call cfg ka s0 a ubufa na = Inr (s, int na) \<and> count < MAX_CALL cfg \<longrightarrow>
      getpinfo_call cfg k s cur ubuf count = Inr (s, - EAGAIN))"
proof (intro conjI impI)
  assume "call_task s \<noteq> None"
  then show "getpinfo_call cfg k s cur ubuf count =
      Inr (s, if count < MAX_CALL cfg then - EAGAIN else - EINVAL)"
    by (simp add: call_busy call_oversized)
next
  assume a: "getpinfo_call cfg ka s0 a ubufa na = Inr (s, int na) \<and> count < MAX_CALL cfg"
  then have "call_task s \<noteq> None"
    using call_cases [of cfg ka s0 a ubufa na s "int na"] by auto
  with a show "getpinfo_call cfg k s cur ubuf count = Inr (s, - EAGAIN)"
    by (simp add: call_busy)
qed

theorem submit_while_occupied_witness:
  "call_task busy_state \<noteq> None \<and>
   getpinfo_call demo_cfg demo_kernel init_state 7 ''hello'' 5 = Inr (busy_state, int 5) \<and>
   (9::nat) < MAX_CALL demo_cfg \<and>
   getpinfo_call demo_cfg demo_kernel busy_state 8 (''getpinfo'' @ [NUL]) 9 =
     Inr (busy_state, - EAGAIN)"
proof -
  have h1: "call_task busy_state \<noteq> None" by (simp add: busy_state_def)
  have h2: "getpinfo_call demo_cfg demo_kernel init_state 7 ''hello'' 5 = Inr (busy_state, int 5)"
    using demo_hello by simp
  have h3: "(9::nat) < MAX_CALL demo_cfg" by (simp add: demo_cfg_def)
  from submit_while_occupied [of busy_state demo_cfg demo_kernel 8 "''getpinfo'' @ [NUL]" 9
      demo_kernel init_state 7 "''hello''" 5] h1 h2 h3
  show ?thesis by simp
qed

text \<open>The claim as first stated fails for an oversized write to an occupied slot: it is
  answered with \<^verbatim>\<open>-EINVAL\<close>, not \<^verbatim>\<open>-EAGAIN\<close>.\<close>

theorem submit_while_occupied_counterexample:
  "call_task busy_state \<noteq> None \<and>
   getpinfo_call demo_cfg demo_kernel busy_state 8 (replicate 16 CHR ''a'') 16 \<noteq>
     Inr (busy_state, - EAGAIN)"
  by (simp add: busy_state_def getpinfo_call_def demo_cfg_def EINVAL_def EAGAIN_def)

text \<open>
  \<^bold>\<open>C2\<close> (owner correlation). A read by a task that is not the recorded caller returns
  0, stores nothing in the user's buffer and leaves the module state as it was. So when
  task \<open>t\<close>'s write was accepted and left the response \<open>cstr b\<close> in the buffer, a read
  by another task \<open>u\<close> changes nothing, and a read by \<open>t\<close> after it, with room for the
  whole response, still stores that response and its terminator in \<open>t\<close>'s buffer.
\<close>

theorem foreign_fetch_leaves_slot:
  "(call_task s \<noteq> Some u \<longrightarrow> getpinfo_return cfg s u m uw = Inr (s, 0, [])) \<and>
   (getpinfo_call cfg k s0 t ubuf n = Inr (s, int n) \<and> u \<noteq> t \<and>
    getpinfo_return cfg s u m uw = Inr (s', r, out) \<and>
    respbuf s = Some b \<and> length (cstr b) < m' \<and> length (cstr b) < uw' \<longrightarrow>
      s' = s \<and> r = 0 \<and> out = [] \<and>
      (\<exists>s'' r'. getpinfo_return cfg s' t m' uw' = Inr (s'', r', cstr b @ [NUL])))"
proof (rule conjI; rule impI)
  assume "call_task s \<noteq> Some u"
  then show "getpinfo_return cfg s u m uw = Inr (s, 0, [])" by (rule return_foreign)
next
  assume a: "getpinfo_call cfg k s0 t ubuf n = Inr (s, int n) \<and> u \<noteq> t \<and>
    getpinfo_return cfg s u m uw = Inr (s', r, out) \<and>
    respbuf s = Some b \<and> length (cstr b) < m' \<and> length (cstr b) < uw'"
  then have owner: "call_task s = Some t" and nul: "NUL \<in> set b"
    using call_cases [of cfg k s0 t ubuf n s "int n"] by auto
  with a have "call_task s \<noteq> Some u" by simp
  then have "getpinfo_return cfg s u m uw = Inr (s, 0, [])" by (rule return_foreign)
  with a have same: "s' = s" "r = 0" "out = []" by simp_all
  have "min (Suc (length (cstr b))) uw' = Suc (length (cstr b))" using a by simp
  then have "getpinfo_return cfg s t m' uw' =
      Inr (s\<lparr>respbuf := None, call_task := None, f_pos := 0\<rparr>, 0, cstr b @ [NUL])"
    using return_owner_full [OF owner _ nul, of m' cfg uw'] a
    by (simp add: cstr_take_Suc [OF nul])
  with same show "s' = s \<and> r = 0 \<and> out = [] \<and>
      (\<exists>s'' r'. getpinfo_return cfg s' t m' uw' = Inr (s'', r', cstr b @ [NUL]))"
    by simp
qed

theorem foreign_fetch_leaves_slot_witness:
  "call_task busy_state \<noteq> Some 8 \<and>
   getpinfo_call demo_cfg demo_kernel init_state 7 ''hello'' 5 = Inr (busy_state, int 5) \<and>
   getpinfo_return demo_cfg busy_state 8 512 512 = Inr (busy_state, 0, []) \<and>
   (\<exists>s'' r'. getpinfo_return demo_cfg busy_state 7 512 512 =
      Inr (s'', r', ''Failed: invalid operation'' @ [NL, NUL]))"
proof -
  let ?b = "failed_msg @ NUL # replicate 93 CHR ''x''"
  have h1: "call_task busy_state \<noteq> Some 8" by (simp add: busy_state_def)
  have h2: "getpinfo_call demo_cfg demo_kernel init_state 7 ''hello'' 5 = Inr (busy_state, int 5)"
    using demo_hello by simp
  have h3: "(8::nat) \<noteq> 7" by simp
  have h5: "length (cstr ?b) < 512" by (simp add: demo_busy_props(4) failed_msg_props(1))
  have first: "getpinfo_return demo_cfg busy_state 8 512 512 = Inr (busy_state, 0, [])"
    using foreign_fetch_leaves_slot [of busy_state 8 demo_cfg 512 512] h1 by blast
  from foreign_fetch_leaves_slot [of busy_state 8 demo_cfg 512 512 demo_kernel init_state 7
      "''hello''" 5 busy_state 0 "[]" ?b 512 512] h2 h3 first demo_busy_props(2) h5
  have "\<exists>s'' r'. getpinfo_return demo_cfg busy_state 7 512 512 = Inr (s'', r', cstr ?b @ [NUL])"
    by blast
  then have "\<exists>s'' r'. getpinfo_return demo_cfg busy_state 7 512 512 =
      Inr (s'', r', ''Failed: invalid operation'' @ [NL, NUL])"
    by (simp add: demo_busy_props(4)) (simp add: failed_msg_def)
  with h1 h2 first show ?thesis by blast
qed

text \<open>
  \<^bold>\<open>C3\<close> (reported length). The code returns the result of \<^verbatim>\<open>copy_to_user\<close>, the number
  of bytes \<^emph>\<open>not\<close> copied. Task 7 fetches its 27-byte response
  \<^verbatim>\<open>"Failed: invalid operation\n\0"\<close>: with room for 512 bytes the whole response is
  stored and the read returns 0, not 27; with room for 10 bytes, 10 bytes ending in a
  terminator are stored and the read returns 0, not 10.
\<close>

theorem fetch_returns_copy_residue:
  "getpinfo_call demo_cfg demo_kernel init_state 7 ''hello'' 5 = Inr (busy_state, 5) \<and>
   getpinfo_return demo_cfg busy_state 7 512 512 =
     Inr (init_state, 0, ''Failed: invalid operation'' @ [NL, NUL]) \<and>
   length (''Failed: invalid operation'' @ [NL, NUL]) = 27 \<and>
   getpinfo_return demo_cfg busy_state 7 10 512 = Inr (init_state, 0, ''Failed: i'' @ [NUL])"
proof -
  let ?b = "failed_msg @ NUL # replicate 93 CHR ''x''"
  have "0 < (10::nat)" "10 \<le> length (cstr ?b)" "(10::nat) < 2 ^ 64"
    by (simp_all add: demo_busy_props(4) failed_msg_props(1))
  from return_owner_trunc [OF demo_busy_props(1,2,3) this, of demo_cfg 512]
  have "getpinfo_return demo_cfg busy_state 7 10 512 = Inr (init_state, 0, ''Failed: i'' @ [NUL])"
    by (simp add: busy_state_def init_state_def failed_msg_def)
  then show ?thesis using demo_hello demo_fetch by simp
qed

text \<open>
  \<^bold>\<open>C4\<close> (unknown verb), as amended. The handler reads the payload as a C string. A write
  that passes the length check, finds the slot empty and gets its buffer, and whose payload
  either holds a terminator with a string other than \<^verbatim>\<open>getpinfo\<close> before it, or holds
  no terminator and is not a prefix of \<^verbatim>\<open>getpinfo\<close>, leaves the slot occupied by the
  writing task with a buffer that holds exactly \<^verbatim>\<open>"Failed: invalid operation\n"\<close> and
  its terminator, and returns \<open>count\<close>. The message has 26 characters, so the buffer
  size \<^verbatim>\<open>MAX_RESP\<close> must exceed 26. (For a payload without terminator that is a prefix
  of the verb the outcome depends on the stale bytes of the stack slot, see C9; nothing is
  said about it here.)
\<close>

theorem unknown_verb_response:
  assumes "count < MAX_CALL cfg" and "call_task s = None" and "alloc_ok k"
    and "if NUL \<in> set (payload ubuf count)
         then cstr (payload ubuf count) \<noteq> ''getpinfo''
         else payload ubuf count \<noteq> take count ''getpinfo''"
    and "26 < MAX_RESP cfg"
  shows "\<exists>b. getpinfo_call cfg k s cur ubuf count =
               Inr (s\<lparr>respbuf := Some b, call_task := Some cur\<rparr>, int count) \<and>
             NUL \<in> set b \<and> cstr b = ''Failed: invalid operation'' @ [NL]"
proof -
  have v: "verb = ''getpinfo''" by (simp add: verb_def)
  have nv: "cstr (callbuf_of cfg k ubuf count) \<noteq> verb"
  proof (cases "NUL \<in> set (payload ubuf count)")
    case True
    with assms(4) have "cstr (payload ubuf count) \<noteq> verb" by (simp add: v)
    then show ?thesis using callbuf_terminated [OF assms(1) True, of k] by simp
  next
    case False
    with assms(4) have "payload ubuf count \<noteq> take count verb" by (simp add: v)
    with assms(1) False show ?thesis by (rule callbuf_unterminated)
  qed
  from assms(5) have fit: "length failed_msg < MAX_RESP cfg" by (simp add: failed_msg_props(1))
  from call_unrecognised [OF assms(1,2,3) nv fit, of cur]
  show ?thesis by (auto simp: failed_msg_def)
qed

theorem unknown_verb_response_witness:
  "(\<exists>b. getpinfo_call demo_cfg demo_kernel init_state 7 ''hello'' 5 =
          Inr (init_state\<lparr>respbuf := Some b, call_task := Some 7\<rparr>, int 5) \<and>
        NUL \<in> set b \<and> cstr b = ''Failed: invalid operation'' @ [NL]) \<and>
   (\<exists>b. getpinfo_call demo_cfg demo_kernel init_state 7 (''getpid'' @ NUL # ''fo'') 9 =
          Inr (init_state\<lparr>respbuf := Some b, call_task := Some 7\<rparr>, int 9) \<and>
        NUL \<in> set b \<and> cstr b = ''Failed: invalid operation'' @ [NL])"
proof -
  have h2: "call_task init_state = None" by (simp add: init_state_def)
  have h3: "alloc_ok demo_kernel" by (simp add: demo_kernel_def)
  have h5: "26 < MAX_RESP demo_cfg" by (simp add: demo_cfg_def)
  have a1: "5 < MAX_CALL demo_cfg" by (simp add: demo_cfg_def)
  have a4: "if NUL \<in> set (payload ''hello'' 5)
            then cstr (payload ''hello'' 5) \<noteq> ''getpinfo''
            else payload ''hello'' 5 \<noteq> take 5 ''getpinfo''"
    by (simp add: payload_def)
  have b1: "9 < MAX_CALL demo_cfg" by (simp add: demo_cfg_def)
  have b4: "if NUL \<in> set (payload (''getpid'' @ NUL # ''fo'') 9)
            then cstr (payload (''getpid'' @ NUL # ''fo'') 9) \<noteq> ''getpinfo''
            else payload (''getpid'' @ NUL # ''fo'') 9 \<noteq> take 9 ''getpinfo''"
    by (simp add: payload_def cstr_def)
  show ?thesis
    using unknown_verb_response [OF a1 h2 h3 a4 h5, of 7]
      unknown_verb_response [OF b1 h2 h3 b4 h5, of 7]
    by (rule conjI)
qed

text \<open>The claim as first stated fails for a payload that is not the verb but starts with
  the verb and a terminator: task 7 writes the 13 bytes \<^verbatim>\<open>getpinfo\0junk\<close> and is given
  the success response.\<close>

theorem unknown_verb_response_counterexample:
  "''getpinfo'' @ NUL # ''junk'' \<noteq> ''getpinfo'' \<and>
   13 < MAX_CALL demo_cfg \<and> call_task init_state = None \<and> alloc_ok demo_kernel \<and>
   response_after
     (getpinfo_call demo_cfg demo_kernel init_state 7 (''getpinfo'' @ NUL # ''junk'') 13) =
     Some (''Success:'' @ NL # TAB # ''Current PID 7'' @ NL # TAB # ''parent 3'' @ NL # TAB #
           ''state 0'' @ NL # TAB # ''flags 00400000'' @ NL # TAB # ''priority 120'' @
           NL # TAB # ''command getpinfo'' @ [NL]) \<and>
   response_after
     (getpinfo_call demo_cfg demo_kernel init_state 7 (''getpinfo'' @ NUL # ''junk'') 13) \<noteq>
     Some (''Failed: invalid operation'' @ [NL])"
proof -
  let ?u = "''getpinfo'' @ NUL # ''junk''"
  have h1: "13 < MAX_CALL demo_cfg" by (simp add: demo_cfg_def)
  have h2: "call_task init_state = None" by (simp add: init_state_def)
  have h3: "alloc_ok demo_kernel" by (simp add: demo_kernel_def)
  have "NUL \<in> set (payload ?u 13)" by (simp add: payload_def)
  from callbuf_terminated [OF h1 this, of demo_kernel]
  have h4: "cstr (callbuf_of demo_cfg demo_kernel ?u 13) = verb"
    by (simp add: payload_def cstr_def verb_def)
  have v: "verb = ''getpinfo''" by (simp add: verb_def)
  have h5: "length (resp_line_of demo_kernel 7 verb) < MAX_LINE demo_cfg"
    by (simp add: v demo_resp_line demo_cfg_def)
  have h6: "9 + length (resp_line_of demo_kernel 7 verb) < MAX_RESP demo_cfg"
    by (simp add: v demo_resp_line demo_cfg_def)
  from call_recognised [OF h1 h2 h3 h4 h5 h6]
  obtain b where "getpinfo_call demo_cfg demo_kernel init_state 7 ?u 13 =
      Inr (init_state\<lparr>respbuf := Some b, call_task := Some 7, f_pos := 0\<rparr>, int 13)"
    and "cstr b = ''Success:'' @ [NL] @ resp_line_of demo_kernel 7 verb" by blast
  then have "response_after (getpinfo_call demo_cfg demo_kernel init_state 7 ?u 13) =
      Some (''Success:'' @ [NL] @ resp_line_of demo_kernel 7 ''getpinfo'')"
    by (simp add: response_after_def v)
  then have r: "response_after (getpinfo_call demo_cfg demo_kernel init_state 7 ?u 13) =
     Some (''Success:'' @ NL # TAB # ''Current PID 7'' @ NL # TAB # ''parent 3'' @ NL # TAB #
           ''state 0'' @ NL # TAB # ''flags 00400000'' @ NL # TAB # ''priority 120'' @
           NL # TAB # ''command getpinfo'' @ [NL])"
    by (simp add: demo_resp_line)
  then have "response_after (getpinfo_call demo_cfg demo_kernel init_state 7 ?u 13) \<noteq>
     Some (''Failed: invalid operation'' @ [NL])"
    by simp
  with r h1 h2 h3 show ?thesis by simp
qed

text \<open>
  \<^bold>\<open>C5\<close> (success response). A write that passes the length check, finds the slot empty,
  gets its buffer and whose call string is \<^verbatim>\<open>getpinfo\<close> leaves in the buffer the line
  \<^verbatim>\<open>Success:\<close> followed by exactly six lines, each a tab, a key, a blank, a value and
  a newline, with the keys \<^verbatim>\<open>Current PID\<close>, \<^verbatim>\<open>parent\<close>, \<^verbatim>\<open>state\<close>, \<^verbatim>\<open>flags\<close>,
  \<^verbatim>\<open>priority\<close>, \<^verbatim>\<open>command\<close> in this order; no value contains a newline. The
  values are stated without the handler's formatting functions:
  \<^item> the flags value is \<open>spec_hex8\<close> of the task's flags word: eight characters, the
    lowercase hexadecimal digit of each nibble of the 32-bit word, most significant first,
    so that a short numeral is padded with zeros on the left;
  \<^item> the PID, parent, state and priority values are decimal numerals (digits, with a minus
    sign for a negative number) that read back as the pid of the task, the pid of its
    parent, its state and its normal priority;
  \<^item> the parent value is \<^verbatim>\<open>0\<close> when the task has no \<^verbatim>\<open>real_parent\<close> or the parent has
    no pid;
  \<^item> the command value is \<^verbatim>\<open>getpinfo\<close>.

  The two size hypotheses say that the text fits \<^verbatim>\<open>resp_line\<close> and the response buffer.
\<close>

theorem success_response_format:
  assumes "count < MAX_CALL cfg" and "call_task s = None" and "alloc_ok k"
    and "cstr (callbuf_of cfg k ubuf count) = ''getpinfo''"
    and "length (resp_line_of k cur ''getpinfo'') < MAX_LINE cfg"
    and "9 + length (resp_line_of k cur ''getpinfo'') < MAX_RESP cfg"
  shows "\<exists>b pid ppid st fl pr.
           getpinfo_call cfg k s cur ubuf count =
             Inr (s\<lparr>respbuf := Some b, call_task := Some cur, f_pos := 0\<rparr>, int count) \<and>
           NUL \<in> set b \<and>
           cstr b = ''Success:'' @ [NL] @
             concat (map (\<lambda>(key, val). TAB # key @ '' '' @ val @ [NL])
               [(''Current PID'', pid), (''parent'', ppid), (''state'', st),
                (''flags'', fl), (''priority'', pr), (''command'', ''getpinfo'')]) \<and>
           NL \<notin> set (pid @ ppid @ st @ fl @ pr @ ''getpinfo'') \<and>
           fl = spec_hex8 (flags (tasks k cur)) \<and>
           length fl = 8 \<and> set fl \<subseteq> set ''0123456789abcdef'' \<and>
           set (pid @ ppid @ st @ pr) \<subseteq> set ''-0123456789'' \<and>
           spec_read_int pid =
             (case get_task_pid k cur of None \<Rightarrow> 0 | Some p \<Rightarrow> pid_vnr k p) \<and>
           spec_read_int ppid =
             (case real_parent (tasks k cur) of
                None \<Rightarrow> 0
              | Some u \<Rightarrow> (case get_task_pid k u of None \<Rightarrow> 0 | Some p \<Rightarrow> pid_vnr k p)) \<and>
           spec_read_int st = state (tasks k cur) \<and>
           spec_read_int pr = normal_prio (tasks k cur) \<and>
           (real_parent (tasks k cur) = None \<longrightarrow> ppid = ''0'') \<and>
           (\<forall>u. real_parent (tasks k cur) = Some u \<and> get_task_pid k u = None \<longrightarrow>
                ppid = ''0'')"
proof -
  let ?pid = "fmt_d (cur_pid_of k cur)"
  let ?ppid = "fmt_d (parent_pid_of k cur)"
  let ?st = "fmt_d (state (tasks k cur))"
  let ?fl = "fmt_08x (flags (tasks k cur))"
  let ?pr = "fmt_d (normal_prio (tasks k cur))"
  have v: "verb = ''getpinfo''" by (simp add: verb_def)
  from call_recognised [of count cfg s k ubuf cur] assms
  obtain b where b: "getpinfo_call cfg k s cur ubuf count =
      Inr (s\<lparr>respbuf := Some b, call_task := Some cur, f_pos := 0\<rparr>, int count)"
    "NUL \<in> set b" "cstr b = ''Success:'' @ [NL] @ resp_line_of k cur verb"
    unfolding v by blast
  have "resp_line_of k cur verb =
      concat (map (\<lambda>(key, val). TAB # key @ '' '' @ val @ [NL])
               [(''Current PID'', ?pid), (''parent'', ?ppid), (''state'', ?st),
                (''flags'', ?fl), (''priority'', ?pr), (''command'', ''getpinfo'')])"
    by (simp add: resp_line_of_def v)
  with b(3) have body: "cstr b = ''Success:'' @ [NL] @
      concat (map (\<lambda>(key, val). TAB # key @ '' '' @ val @ [NL])
               [(''Current PID'', ?pid), (''parent'', ?ppid), (''state'', ?st),
                (''flags'', ?fl), (''priority'', ?pr), (''command'', ''getpinfo'')])"
    by (simp only:)
  have nl: "NL \<notin> set (?pid @ ?ppid @ ?st @ ?fl @ ?pr @ ''getpinfo'')"
    by (simp add: fmt_d_no_ctl(2) fmt_08x_no_ctl(2))
  have fl: "?fl = spec_hex8 (flags (tasks k cur))" by (rule fmt_08x_spec)
  have len: "length ?fl = 8" by (rule fmt_08x_length)
  have hex: "set ?fl \<subseteq> set ''0123456789abcdef''" by (rule fmt_08x_digits)
  have dec: "set (?pid @ ?ppid @ ?st @ ?pr) \<subseteq> set ''-0123456789''"
    using fmt_d_charset by (simp only: set_append Un_subset_iff)
  have r1: "spec_read_int ?pid =
      (case get_task_pid k cur of None \<Rightarrow> 0 | Some p \<Rightarrow> pid_vnr k p)"
    by (simp only: spec_read_fmt_d cur_pid_of_case)
  have r2: "spec_read_int ?ppid =
      (case real_parent (tasks k cur) of
         None \<Rightarrow> 0
       | Some u \<Rightarrow> (case get_task_pid k u of None \<Rightarrow> 0 | Some p \<Rightarrow> pid_vnr k p))"
    by (simp only: spec_read_fmt_d parent_pid_of_case)
  have r3: "spec_read_int ?st = state (tasks k cur)" by (rule spec_read_fmt_d)
  have r4: "spec_read_int ?pr = normal_prio (tasks k cur)" by (rule spec_read_fmt_d)
  have p1: "real_parent (tasks k cur) = None \<longrightarrow> ?ppid = ''0''"
    by (simp add: parent_pid_of_def fmt_d_zero)
  have p2: "\<forall>u. real_parent (tasks k cur) = Some u \<and> get_task_pid k u = None \<longrightarrow>
      ?ppid = ''0''"
    by (simp add: parent_pid_of_def fmt_d_zero)
  show ?thesis
    using b(1,2) body nl fl len hex dec r1 r2 r3 r4 p1 p2
    by (intro exI [of _ b] exI [of _ ?pid] exI [of _ ?ppid] exI [of _ ?st] exI [of _ ?fl]
        exI [of _ ?pr] conjI) assumption+
qed

theorem success_response_format_witness:
  "\<exists>b pid ppid st pr.
      getpinfo_call demo_cfg demo_kernel init_state 7 (''getpinfo'' @ [NUL]) 9 =
        Inr (init_state\<lparr>respbuf := Some b, call_task := Some 7, f_pos := 0\<rparr>, int 9) \<and>
      cstr b = ''Success:'' @ [NL] @
        concat (map (\<lambda>(key, val). TAB # key @ '' '' @ val @ [NL])
          [(''Current PID'', pid), (''parent'', ppid), (''state'', st),
           (''flags'', ''00400000''), (''priority'', pr), (''command'', ''getpinfo'')]) \<and>
      spec_read_int pid = 7 \<and> spec_read_int ppid = 3 \<and>
      spec_read_int st = 0 \<and> spec_read_int pr = 120"
proof -
  have h1: "9 < MAX_CALL demo_cfg" by (simp add: demo_cfg_def)
  have h2: "call_task init_state = None" by (simp add: init_state_def)
  have h3: "alloc_ok demo_kernel" by (simp add: demo_kernel_def)
  have h5: "length (resp_line_of demo_kernel 7 ''getpinfo'') < MAX_LINE demo_cfg"
    by (simp add: demo_resp_line demo_cfg_def)
  have h6: "9 + length (resp_line_of demo_kernel 7 ''getpinfo'') < MAX_RESP demo_cfg"
    by (simp add: demo_resp_line demo_cfg_def)
  have hx: "spec_hex8 (flags (tasks demo_kernel 7)) = ''00400000''"
    using fmt_08x_spec [of "flags (tasks demo_kernel 7)"] demo_fmt_flags by simp
  have v1: "(case get_task_pid demo_kernel 7 of None \<Rightarrow> 0 | Some p \<Rightarrow> pid_vnr demo_kernel p) = 7"
    by (simp add: demo_kernel_def)
  have v2: "(case real_parent (tasks demo_kernel 7) of
         None \<Rightarrow> 0
       | Some u \<Rightarrow> (case get_task_pid demo_kernel u of None \<Rightarrow> 0
                     | Some p \<Rightarrow> pid_vnr demo_kernel p)) = 3"
    by (simp add: demo_kernel_def)
  have v3: "state (tasks demo_kernel 7) = 0" "normal_prio (tasks demo_kernel 7) = 120"
    by (simp_all add: demo_kernel_def)
  from success_response_format [OF h1 h2 h3 demo_callbuf_verb h5 h6]
  show ?thesis
    unfolding hx v1 v2 v3 by blast
qed

text \<open>
  \<^bold>\<open>C6\<close> (length bound). A write whose length \<open>count\<close> is at least \<^verbatim>\<open>MAX_CALL\<close>
  returns \<^verbatim>\<open>-EINVAL\<close> and leaves the whole module state (recorded caller, response
  buffer, file position) as it was, whatever that state is.
\<close>

theorem oversized_submit_rejected:
  assumes "MAX_CALL cfg \<le> count"
  shows "getpinfo_call cfg k s cur ubuf count = Inr (s, - EINVAL)"
  using assms by (rule call_oversized)

theorem oversized_submit_rejected_witness:
  "MAX_CALL demo_cfg \<le> 16 \<and>
   getpinfo_call demo_cfg demo_kernel busy_state 8 (replicate 16 CHR ''a'') 16 =
     Inr (busy_state, - EINVAL)"
proof -
  have h: "MAX_CALL demo_cfg \<le> 16" by (simp add: demo_cfg_def)
  show ?thesis using h oversized_submit_rejected [OF h] by simp
qed

text \<open>
  \<^bold>\<open>C7\<close> (allocation failure). When the write reaches the allocation (its length is
  below \<^verbatim>\<open>MAX_CALL\<close> and the slot is empty) and \<^verbatim>\<open>kmalloc\<close> fails, it returns
  \<^verbatim>\<open>-ENOSPC\<close>; afterwards the recorded caller is still null and the buffer pointer is
  null, and nothing else has changed.
\<close>

theorem alloc_failure_keeps_slot_empty:
  assumes "count < MAX_CALL cfg" and "call_task s = None" and "\<not> alloc_ok k"
  shows "\<exists>s'. getpinfo_call cfg k s cur ubuf count = Inr (s', - ENOSPC) \<and>
              call_task s' = None \<and> respbuf s' = None \<and> s' = s\<lparr>respbuf := None\<rparr>"
  using assms by (simp add: call_nomem)

theorem alloc_failure_keeps_slot_empty_witness:
  "\<exists>s'. getpinfo_call demo_cfg no_mem_kernel init_state 7 (''getpinfo'' @ [NUL]) 9 =
           Inr (s', - ENOSPC) \<and>
        call_task s' = None \<and> respbuf s' = None \<and> s' = init_state\<lparr>respbuf := None\<rparr>"
proof -
  have h1: "9 < MAX_CALL demo_cfg" by (simp add: demo_cfg_def)
  have h2: "call_task init_state = None" by (simp add: init_state_def)
  have h3: "\<not> alloc_ok no_mem_kernel" by (simp add: no_mem_kernel_def)
  show ?thesis by (rule alloc_failure_keeps_slot_empty [OF h1 h2 h3])
qed

text \<open>
  \<^bold>\<open>C8\<close> (slot invariant). After any sequence \<open>ops\<close> of writes and reads that all
  return, started from the state of the freshly loaded module:
  \<^item> the recorded caller is null exactly when the buffer pointer is null;
  \<^item> when the slot is occupied by task \<open>t\<close>, the buffer has \<^verbatim>\<open>MAX_RESP\<close> bytes and
    contains a terminator, and the text before it is a complete response to a write by
    \<open>t\<close> in \<open>ops\<close>: either exactly \<^verbatim>\<open>"Failed: invalid operation\n"\<close>, or the line
    \<^verbatim>\<open>Success:\<close> with all six key-value lines for \<open>t\<close> (\<open>success_response_for\<close>,
    which is stated without the handler's formatting functions).

  A read that is served to the recorded caller clears the caller and the buffer pointer
  together.
\<close>

theorem slot_invariant:
  "(run cfg init_state ops = Inr s \<longrightarrow>
      (call_task s = None \<longleftrightarrow> respbuf s = None) \<and>
      (\<forall>t b. call_task s = Some t \<and> respbuf s = Some b \<longrightarrow>
         length b = MAX_RESP cfg \<and> NUL \<in> set b \<and>
         (\<exists>k ubuf count. Submit k t ubuf count \<in> set ops \<and>
            (cstr b = ''Failed: invalid operation'' @ [NL] \<or>
             success_response_for k t (cstr b))))) \<and>
   (call_task s1 = Some cur \<and> getpinfo_return cfg s1 cur m uw = Inr (s2, r, out) \<longrightarrow>
      call_task s2 = None \<and> respbuf s2 = None)"
proof (rule conjI; rule impI)
  assume run: "run cfg init_state ops = Inr s"
  have "slot_ok cfg {} init_state" by (simp add: init_state_def)
  then have "slot_ok cfg ({} \<union> set ops) s" using run by (rule run_ok)
  moreover have "{} \<union> set ops \<subseteq> set ops" by simp
  ultimately show "(call_task s = None \<longleftrightarrow> respbuf s = None) \<and>
      (\<forall>t b. call_task s = Some t \<and> respbuf s = Some b \<longrightarrow>
         length b = MAX_RESP cfg \<and> NUL \<in> set b \<and>
         (\<exists>k ubuf count. Submit k t ubuf count \<in> set ops \<and>
            (cstr b = ''Failed: invalid operation'' @ [NL] \<or>
             success_response_for k t (cstr b))))"
    by (rule slot_ok_mono)
next
  assume a: "call_task s1 = Some cur \<and> getpinfo_return cfg s1 cur m uw = Inr (s2, r, out)"
  then have "s2 = s1\<lparr>respbuf := None, call_task := None, f_pos := 0\<rparr>"
    using return_cases [of cfg s1 cur m uw s2 r out] by auto
  then show "call_task s2 = None \<and> respbuf s2 = None" by simp
qed

theorem slot_invariant_witness:
  "run demo_cfg init_state [Submit demo_kernel 7 ''hello'' 5, Fetch 8 512 512] = Inr busy_state \<and>
   call_task busy_state = Some 7 \<and>
   respbuf busy_state = Some (failed_msg @ NUL # replicate 93 CHR ''x'') \<and>
   length (failed_msg @ NUL # replicate 93 CHR ''x'') = MAX_RESP demo_cfg \<and>
   NUL \<in> set (failed_msg @ NUL # replicate 93 CHR ''x'') \<and>
   (\<exists>k ubuf count.
      Submit k 7 ubuf count \<in> set [Submit demo_kernel 7 ''hello'' 5, Fetch 8 512 512] \<and>
      (cstr (failed_msg @ NUL # replicate 93 CHR ''x'') = ''Failed: invalid operation'' @ [NL] \<or>
       success_response_for k 7 (cstr (failed_msg @ NUL # replicate 93 CHR ''x'')))) \<and>
   getpinfo_return demo_cfg busy_state 7 512 512 =
     Inr (init_state, 0, ''Failed: invalid operation'' @ [NL, NUL]) \<and>
   call_task init_state = None \<and> respbuf init_state = None \<and>
   (\<exists>s b. run demo_cfg init_state [Submit demo_kernel 7 (''getpinfo'' @ [NUL]) 9] = Inr s \<and>
      call_task s = Some 7 \<and> respbuf s = Some b \<and>
      success_response_for demo_kernel 7 (cstr b))"
proof -
  let ?ops = "[Submit demo_kernel 7 ''hello'' 5, Fetch 8 512 512]"
  let ?b = "failed_msg @ NUL # replicate 93 CHR ''x''"
  have f: "getpinfo_return demo_cfg busy_state 8 512 512 = Inr (busy_state, 0, [])"
    by (rule return_foreign) (simp add: busy_state_def)
  have h1: "run demo_cfg init_state ?ops = Inr busy_state"
    by (simp add: demo_hello f)
  note th = slot_invariant [of demo_cfg ?ops busy_state busy_state 7 512 512 init_state 0
      "''Failed: invalid operation'' @ [NL, NUL]"]
  from th h1 have inv: "\<forall>t b. call_task busy_state = Some t \<and> respbuf busy_state = Some b \<longrightarrow>
         length b = MAX_RESP demo_cfg \<and> NUL \<in> set b \<and>
         (\<exists>k ubuf count. Submit k t ubuf count \<in> set ?ops \<and>
            (cstr b = ''Failed: invalid operation'' @ [NL] \<or>
             success_response_for k t (cstr b)))"
    by blast
  from inv demo_busy_props(1,2) have occ: "length ?b = MAX_RESP demo_cfg \<and> NUL \<in> set ?b \<and>
         (\<exists>k ubuf count. Submit k 7 ubuf count \<in> set ?ops \<and>
            (cstr ?b = ''Failed: invalid operation'' @ [NL] \<or>
             success_response_for k 7 (cstr ?b)))"
    by blast
  from th demo_busy_props(1) demo_fetch
  have clr: "call_task init_state = None \<and> respbuf init_state = None" by blast
  have ok: "\<exists>s b. run demo_cfg init_state [Submit demo_kernel 7 (''getpinfo'' @ [NUL]) 9] = Inr s \<and>
      call_task s = Some 7 \<and> respbuf s = Some b \<and>
      success_response_for demo_kernel 7 (cstr b)"
  proof -
    let ?sub = "[Submit demo_kernel 7 (''getpinfo'' @ [NUL]) 9]"
    have v: "verb = ''getpinfo''" by (simp add: verb_def)
    have c1: "9 < MAX_CALL demo_cfg" by (simp add: demo_cfg_def)
    have c2: "call_task init_state = None" by (simp add: init_state_def)
    have c3: "alloc_ok demo_kernel" by (simp add: demo_kernel_def)
    have c4: "cstr (callbuf_of demo_cfg demo_kernel (''getpinfo'' @ [NUL]) 9) = verb"
      using demo_callbuf_verb by (simp add: v)
    have c5: "length (resp_line_of demo_kernel 7 verb) < MAX_LINE demo_cfg"
      by (simp add: v demo_resp_line demo_cfg_def)
    have c6: "9 + length (resp_line_of demo_kernel 7 verb) < MAX_RESP demo_cfg"
      by (simp add: v demo_resp_line demo_cfg_def)
    from call_recognised [OF c1 c2 c3 c4 c5 c6]
    obtain b where b: "getpinfo_call demo_cfg demo_kernel init_state 7 (''getpinfo'' @ [NUL]) 9 =
        Inr (init_state\<lparr>respbuf := Some b, call_task := Some 7, f_pos := 0\<rparr>, int 9)"
      and tx: "cstr b = ''Success:'' @ [NL] @ resp_line_of demo_kernel 7 verb" by blast
    let ?s = "init_state\<lparr>respbuf := Some b, call_task := Some 7, f_pos := 0\<rparr>"
    have r: "run demo_cfg init_state ?sub = Inr ?s" using b by simp
    have o: "call_task ?s = Some 7" "respbuf ?s = Some b" by simp_all
    note inv2 = conjunct2 [OF mp [OF conjunct1 [OF slot_invariant [of demo_cfg ?sub ?s]] r]]
    from inv2 [rule_format, OF conjI [OF o]]
    have "\<exists>k ubuf count. Submit k 7 ubuf count \<in> set ?sub \<and>
        (cstr b = ''Failed: invalid operation'' @ [NL] \<or> success_response_for k 7 (cstr b))"
      by (elim conjE)
    then obtain k ubuf count where m: "Submit k 7 ubuf count \<in> set ?sub"
      and d: "cstr b = ''Failed: invalid operation'' @ [NL] \<or> success_response_for k 7 (cstr b)"
      by (elim exE conjE)
    from m have k: "k = demo_kernel" by simp
    from tx have "cstr b \<noteq> ''Failed: invalid operation'' @ [NL]" by simp
    with d have "success_response_for k 7 (cstr b)" by blast
    then have "success_response_for demo_kernel 7 (cstr b)" unfolding k .
    with r o show ?thesis by blast
  qed
  from h1 demo_busy_props(1,2) occ demo_fetch clr ok show ?thesis by blast
qed

text \<open>
  \<^bold>\<open>C9\<close> (unterminated verb). Task 7 writes the eight bytes \<^verbatim>\<open>getpinfo\<close> without a
  terminator (\<open>count = 8\<close>, \<^verbatim>\<open>MAX_CALL\<close> 16) while the stack slot of \<^verbatim>\<open>callbuf\<close>
  holds stale non-zero bytes: the call string read by \<^verbatim>\<open>strcmp\<close> runs on into the stale
  bytes, the verb is not recognised, and the response is the failure message.
\<close>

theorem unterminated_verb_rejected:
  "cstr (callbuf_of demo_cfg demo_kernel ''getpinfo'' 8) = ''getpinfoyyyyyyy'' \<and>
   getpinfo_call demo_cfg demo_kernel init_state 7 ''getpinfo'' 8 = Inr (busy_state, 8) \<and>
   map_option cstr (respbuf busy_state) = Some (''Failed: invalid operation'' @ [NL])"
proof -
  have "cstr (callbuf_of demo_cfg demo_kernel ''getpinfo'' 8) = ''getpinfoyyyyyyy''"
    by (simp add: callbuf_of_def demo_cfg_def demo_kernel_def copy_from_user_def cstr_def
        upt_conv_Cons)
  moreover have "getpinfo_call demo_cfg demo_kernel init_state 7 ''getpinfo'' 8 = Inr (busy_state, 8)"
    by (simp add: getpinfo_call_def demo_cfg_def demo_kernel_def init_state_def busy_state_def
      kmalloc_def strcpy_def callbuf_of_def copy_from_user_def verb_def failed_msg_def
      upt_conv_Cons map_replicate_const)
     (simp add: eval_nat_numeral)
  moreover have "map_option cstr (respbuf busy_state) = Some (''Failed: invalid operation'' @ [NL])"
    using demo_busy_props(2,4) by (simp add: failed_msg_def)
  ultimately show ?thesis by blast
qed

text \<open>
  \<^bold>\<open>C10\<close> (bounds of the terminator store). Task 7 reads with \<open>count = 0\<close>: the index
  \<^verbatim>\<open>count - 1\<close> is \<open>2 ^ 64 - 1\<close> in \<^verbatim>\<open>size_t\<close>, and the store
  \<^verbatim>\<open>respbuf[count - 1] = '\0'\<close> is outside the 120-byte buffer.
\<close>

theorem zero_count_store_out_of_bounds:
  "call_task busy_state = Some 7 \<and>
   size_t_dec 0 = 18446744073709551615 \<and>
   getpinfo_return demo_cfg busy_state 7 0 512 = Inl OutOfBounds"
proof -
  let ?b = "failed_msg @ NUL # replicate 93 CHR ''x''"
  have "length ?b < 2 ^ 64" by (simp add: failed_msg_props(1))
  from return_owner_zero [OF demo_busy_props(1,2,3) this, of demo_cfg 512]
  show ?thesis by (simp add: demo_busy_props(1) size_t_dec_zero)
qed

end
